theory Spec2Isabelle
  imports Main "HOL-Library.Sublist"
begin

section \<open>SEO crawler service: a shallow embedding of seo-crawler-service.ts\<close>

text \<open>
  The service talks to three libraries whose code is not part of the repository: the
  WHATWG \<open>URL\<close> class, the headless browser behind \<open>fetchPage\<close>, and the cheerio
  parser. They are parameters of the model (record \<open>lib\<close>); everything the service
  itself computes is a HOL function over them. The outside world (network, browser) is
  a state of an arbitrary type \<open>'w\<close> that every fetch reads and updates, so two fetches
  of one address may answer differently.

  Strings are lists of 8-bit characters, read as the code units of a JavaScript string
  in the Latin-1 range. JavaScript numbers are modelled as \<open>int\<close>: the rounding of
  integers beyond \<open>2^53\<close> is not reproduced (it never changes whether a number is
  zero).
\<close>

subsection \<open>String helpers of the JavaScript runtime\<close>

definition startsWith :: "string \<Rightarrow> string \<Rightarrow> bool" where
  "startsWith s p = (take (length p) s = p)"

fun includesStr :: "string \<Rightarrow> string \<Rightarrow> bool" where
  "includesStr [] p = (p = [])"
| "includesStr (c # cs) p = (startsWith (c # cs) p \<or> includesStr cs p)"

definition isSpace :: "char \<Rightarrow> bool" where
  "isSpace c = (c \<in> set [CHR 0x09, CHR 0x0A, CHR 0x0B, CHR 0x0C, CHR 0x0D, CHR 0x20, CHR 0xA0])"

definition trim :: "string \<Rightarrow> string" where
  "trim s = rev (dropWhile isSpace (rev (dropWhile isSpace s)))"

definition toLowerChar :: "char \<Rightarrow> char" where
  "toLowerChar c =
     (let n = (of_char c :: nat)
      in if (65 \<le> n \<and> n \<le> 90) \<or> (192 \<le> n \<and> n \<le> 222 \<and> n \<noteq> 215)
         then char_of (n + 32) else c)"

definition toLowerCase :: "string \<Rightarrow> string" where
  "toLowerCase s = map toLowerChar s"

text \<open>\<open>s.substring(n)\<close> for \<open>n \<ge> 0\<close> is \<open>drop n s\<close>.\<close>

definition substring :: "string \<Rightarrow> nat \<Rightarrow> string" where
  "substring s n = drop n s"

text \<open>\<open>s.split('\n')\<close>: never empty; \<open>''\<close> gives one empty line.\<close>

fun split_nl :: "string \<Rightarrow> string list" where
  "split_nl [] = [[]]"
| "split_nl (c # cs) =
     (if c = CHR 0x0A then [] # split_nl cs
      else (case split_nl cs of [] \<Rightarrow> [[c]] | l # ls \<Rightarrow> (c # l) # ls))"

subsection \<open>\<open>parseInt\<close> with no radix argument\<close>

definition digitVal :: "char \<Rightarrow> nat option" where
  "digitVal c =
     (let n = (of_char c :: nat)
      in if 48 \<le> n \<and> n \<le> 57 then Some (n - 48)
         else if 97 \<le> n \<and> n \<le> 122 then Some (n - 87)
         else if 65 \<le> n \<and> n \<le> 90 then Some (n - 55)
         else None)"

definition isDigitIn :: "nat \<Rightarrow> char \<Rightarrow> bool" where
  "isDigitIn r c = (case digitVal c of None \<Rightarrow> False | Some d \<Rightarrow> d < r)"

definition digitsValue :: "nat \<Rightarrow> string \<Rightarrow> int" where
  "digitsValue r ds = foldl (\<lambda>acc c. acc * int r + int (case digitVal c of None \<Rightarrow> 0 | Some d \<Rightarrow> d)) 0 ds"

text \<open>
  \<open>None\<close> is NaN. The sign is read first, then an optional \<open>0x\<close>/\<open>0X\<close> prefix that
  switches to radix 16, then the longest run of digits; what follows is ignored.
\<close>

definition parseInt :: "string \<Rightarrow> int option" where
  "parseInt str =
     (let s0 = dropWhile isSpace str;
          neg = startsWith s0 ''-'';
          s1 = (if startsWith s0 ''-'' \<or> startsWith s0 ''+'' then drop 1 s0 else s0);
          hex = (startsWith s1 ''0x'' \<or> startsWith s1 ''0X'');
          r = (if hex then 16 else 10);
          s2 = (if hex then drop 2 s1 else s1);
          z = takeWhile (isDigitIn r) s2
      in if z = [] then None
         else Some ((if neg then - 1 else 1) * digitsValue r z))"

text \<open>\<open>x || null\<close> on a number: NaN and zero are falsy.\<close>

definition orNull :: "int option \<Rightarrow> int option" where
  "orNull x = (case x of None \<Rightarrow> None | Some n \<Rightarrow> if n = 0 then None else Some n)"

subsection \<open>Data model\<close>

text \<open>The fields of a JavaScript \<open>URL\<close> object that the service reads.\<close>

record URL =
  url_href :: string
  url_hostname :: string
  url_origin :: string

text \<open>What \<open>fetchPage\<close> resolves to.\<close>

record fetched =
  html :: string
  statusCode :: int
  loadTime :: int

text \<open>A parsed document: elements with a tag name, attributes and children, and text.\<close>

datatype node = Element string "(string \<times> string) list" "node list" | Text string

text \<open>
  The libraries. \<open>newURL input base\<close> is \<open>new URL(input, base)\<close>, \<open>None\<close> when it throws.
  \<open>fetchPage w u\<close> is the rendering of address \<open>u\<close> by the browser in world \<open>w\<close>
  (the body of the method of that name holds browser calls only), \<open>None\<close> when it
  throws. \<open>cheerio_load xmlMode text\<close> is \<open>cheerio.load(text, {xmlMode})\<close>.
\<close>

record 'w lib =
  newURL :: "string \<Rightarrow> string option \<Rightarrow> URL option"
  fetchPage :: "'w \<Rightarrow> string \<Rightarrow> fetched option \<times> 'w"
  cheerio_load :: "bool \<Rightarrow> string \<Rightarrow> node list"

record LinkInfo =
  href :: string
  linkText :: string
  isInternal :: bool
  isNofollow :: bool

text \<open>
  Of \<open>PageAnalysis\<close> the fields that the crawl reads or that identify the page; the
  title, headings, images and tag maps are extracted independently of them.
\<close>

record PageAnalysis =
  url :: string
  links :: "LinkInfo list"
  pageLoadTime :: int
  pageStatusCode :: int

text \<open>
  An optional field of \<open>CrawlConfig\<close> is an option; \<open>waitForSelector\<close> and
  \<open>timeout\<close> are left out, since \<open>crawlSite\<close> does not read them.
\<close>

record CrawlConfig =
  config_url :: string
  maxPages :: "int option"
  followSitemap :: "bool option"
  respectRobotsTxt :: "bool option"

record RobotsTxt =
  sitemaps :: "string list"
  disallowed :: "string list"
  crawlDelay :: "int option"

subsection \<open>cheerio selections\<close>

fun text_of :: "node \<Rightarrow> string" where
  "text_of (Text t) = t"
| "text_of (Element n as cs) = concat (map text_of cs)"

text \<open>\<open>$('tag')\<close>: every element of that name, in document order.\<close>

fun select_tag :: "string \<Rightarrow> node \<Rightarrow> node list" where
  "select_tag t (Text s) = []"
| "select_tag t (Element n as cs) =
     (if n = t then [Element n as cs] else []) @ concat (map (select_tag t) cs)"

text \<open>\<open>$('a b')\<close>: every element named \<open>b\<close> that has an ancestor named \<open>a\<close>.\<close>

fun select_under :: "string \<Rightarrow> string \<Rightarrow> bool \<Rightarrow> node \<Rightarrow> node list" where
  "select_under a b inside (Text s) = []"
| "select_under a b inside (Element n as cs) =
     (if inside \<and> n = b then [Element n as cs] else [])
     @ concat (map (select_under a b (inside \<or> n = a)) cs)"

definition select :: "string \<Rightarrow> node list \<Rightarrow> node list" where
  "select t doc = concat (map (select_tag t) doc)"

definition select_desc :: "string \<Rightarrow> string \<Rightarrow> node list \<Rightarrow> node list" where
  "select_desc a b doc = concat (map (select_under a b False) doc)"

text \<open>\<open>$(el).attr(name) || ''\<close>.\<close>

fun attrOrEmpty :: "node \<Rightarrow> string \<Rightarrow> string" where
  "attrOrEmpty (Text s) k = []"
| "attrOrEmpty (Element n as cs) k = (case map_of as k of None \<Rightarrow> [] | Some v \<Rightarrow> v)"

subsection \<open>analyzePage: link extraction\<close>

definition classifyLink :: "'w lib \<Rightarrow> string \<Rightarrow> string \<Rightarrow> node \<Rightarrow> LinkInfo" where
  "classifyLink lib pageUrl baseDomain el =
     (let h = attrOrEmpty el ''href'';
          rel = attrOrEmpty el ''rel''
      in \<lparr> href = h,
           linkText = trim (text_of el),
           isInternal =
             (case newURL lib h (Some pageUrl) of
                Some linkUrl \<Rightarrow> url_hostname linkUrl = baseDomain
              | None \<Rightarrow> startsWith h ''/'' \<or> \<not> startsWith h ''http''),
           isNofollow = includesStr rel ''nofollow'' \<rparr>)"

text \<open>\<open>None\<close>: the promise rejects (the fetch threw, or \<open>new URL(url)\<close> did).\<close>

definition analyzePage :: "'w lib \<Rightarrow> 'w \<Rightarrow> string \<Rightarrow> PageAnalysis option \<times> 'w" where
  "analyzePage lib w pageUrl =
     (case fetchPage lib w pageUrl of
        (None, w1) \<Rightarrow> (None, w1)
      | (Some f, w1) \<Rightarrow>
          (case newURL lib pageUrl None of
             None \<Rightarrow> (None, w1)
           | Some u \<Rightarrow>
               (Some \<lparr> url = pageUrl,
                       links = map (classifyLink lib pageUrl (url_hostname u))
                                   (select ''a'' (cheerio_load lib False (html f))),
                       pageLoadTime = loadTime f,
                       pageStatusCode = statusCode f \<rparr>, w1)))"

subsection \<open>fetchSitemap\<close>

definition sitemapLocs :: "node list \<Rightarrow> string list" where
  "sitemapLocs doc = map (\<lambda>el. trim (text_of el)) (select_desc ''sitemap'' ''loc'' doc)"

definition urlLocs :: "node list \<Rightarrow> string list" where
  "urlLocs doc = map (\<lambda>el. trim (text_of el)) (select_desc ''url'' ''loc'' doc)"

text \<open>
  The \<open>for\<close> loop over the child addresses; \<open>f\<close> is the recursive call. \<open>None\<close> means
  that a call did not return.
\<close>

fun fetchChildren ::
  "('w \<Rightarrow> string \<Rightarrow> (string list \<times> 'w) option) \<Rightarrow> 'w \<Rightarrow> string list \<Rightarrow> (string list \<times> 'w) option" where
  "fetchChildren f w [] = Some ([], w)"
| "fetchChildren f w (c # cs) =
     (case f w c of
        None \<Rightarrow> None
      | Some (us, w1) \<Rightarrow>
          (case fetchChildren f w1 cs of
             None \<Rightarrow> None
           | Some (vs, w2) \<Rightarrow> Some (us @ vs, w2)))"

text \<open>
  The recursion has no depth or cycle guard, so it may not return: the first argument
  bounds the nesting depth, and \<open>None\<close> says that the bound was reached. A fetch that
  throws is caught and gives the empty list.
\<close>

primrec fetchSitemap :: "nat \<Rightarrow> 'w lib \<Rightarrow> 'w \<Rightarrow> string \<Rightarrow> (string list \<times> 'w) option" where
  "fetchSitemap 0 lib w sitemapUrl = None"
| "fetchSitemap (Suc n) lib w sitemapUrl =
     (case fetchPage lib w sitemapUrl of
        (None, w1) \<Rightarrow> Some ([], w1)
      | (Some f, w1) \<Rightarrow>
          (let doc = cheerio_load lib True (html f);
               urls = sitemapLocs doc @ urlLocs doc
           in if length (select ''sitemap'' doc) > 0
              then fetchChildren (fetchSitemap n lib) w1 urls
              else Some (urls, w1)))"

subsection \<open>fetchRobotsTxt\<close>

definition emptyRobots :: RobotsTxt where
  "emptyRobots = \<lparr> sitemaps = [], disallowed = [], crawlDelay = None \<rparr>"

text \<open>The body of the loop over the lines.\<close>

definition robotsLine :: "RobotsTxt \<Rightarrow> string \<Rightarrow> RobotsTxt" where
  "robotsLine r line =
     (let trimmed = trim line
      in if startsWith (toLowerCase trimmed) ''sitemap:''
         then r\<lparr>sitemaps := sitemaps r @ [trim (substring trimmed 8)]\<rparr>
         else if startsWith (toLowerCase trimmed) ''disallow:''
         then r\<lparr>disallowed := disallowed r @ [trim (substring trimmed 9)]\<rparr>
         else if startsWith (toLowerCase trimmed) ''crawl-delay:''
         then r\<lparr>crawlDelay := orNull (parseInt (trim (substring trimmed 12)))\<rparr>
         else r)"

definition robotsLines :: "string list \<Rightarrow> RobotsTxt" where
  "robotsLines ls = foldl robotsLine emptyRobots ls"

definition fetchRobotsTxt :: "'w lib \<Rightarrow> 'w \<Rightarrow> string \<Rightarrow> RobotsTxt \<times> 'w" where
  "fetchRobotsTxt lib w baseUrl =
     (case newURL lib ''/robots.txt'' (Some baseUrl) of
        None \<Rightarrow> (emptyRobots, w)
      | Some robotsUrl \<Rightarrow>
          (case fetchPage lib w (url_href robotsUrl) of
             (None, w1) \<Rightarrow> (emptyRobots, w1)
           | (Some f, w1) \<Rightarrow> (robotsLines (split_nl (html f)), w1)))"

subsection \<open>crawlSite\<close>

text \<open>
  A JavaScript \<open>Set\<close> of strings keeps insertion order: a duplicate-free list, with
  \<open>add\<close> a no-op on a member.
\<close>

definition setAdd :: "string list \<Rightarrow> string \<Rightarrow> string list" where
  "setAdd xs x = (if x \<in> set xs then xs else xs @ [x])"

text \<open>
  What the loop does that is visible outside its variables: the log line before a page
  is analysed, the error line of the \<open>catch\<close> block, and the timer it waits for (with
  the milliseconds handed to \<open>setTimeout\<close>).
\<close>

datatype event = Crawling string | CrawlError string | Sleep int

text \<open>
  The variables of \<open>crawlSite\<close> while the loop runs; \<open>snapshot\<close> is the array
  \<open>Array.from(urlsToCrawl)\<close> that the loop iterates, made once before the first
  iteration.
\<close>

record 'w crawl_state =
  world :: 'w
  results :: "PageAnalysis list"
  urlsToCrawl :: "string list"
  crawledUrls :: "string list"
  snapshot :: "string list"
  events :: "event list"

text \<open>The delay of one iteration: \<open>if (robotsTxt.crawlDelay) ... else ...\<close>.\<close>

definition delayMs :: "int option \<Rightarrow> int" where
  "delayMs cd = (case cd of None \<Rightarrow> 1000 | Some d \<Rightarrow> if d = 0 then 1000 else d * 1000)"

text \<open>The callback of \<open>forEach\<close> over the internal, followed links of a page.\<close>

definition offerLink :: "'w lib \<Rightarrow> string \<Rightarrow> string list \<Rightarrow> string list \<Rightarrow> LinkInfo \<Rightarrow> string list" where
  "offerLink lib pageUrl crawled toCrawl link =
     (case newURL lib (href link) (Some pageUrl) of
        None \<Rightarrow> toCrawl
      | Some u \<Rightarrow> if url_href u \<in> set crawled then toCrawl else setAdd toCrawl (url_href u))"

text \<open>One iteration of the loop, after the test of the page limit.\<close>

definition crawlBody :: "'w lib \<Rightarrow> int option \<Rightarrow> string \<Rightarrow> 'w crawl_state \<Rightarrow> 'w crawl_state" where
  "crawlBody lib cd pageUrl s =
     (if pageUrl \<in> set (crawledUrls s) then s
      else
        (case analyzePage lib (world s) pageUrl of
           (None, w1) \<Rightarrow>
             s\<lparr> world := w1,
                events := events s @ [Crawling pageUrl, CrawlError pageUrl] \<rparr>
         | (Some analysis, w1) \<Rightarrow>
             (let crawled = setAdd (crawledUrls s) pageUrl
              in s\<lparr> world := w1,
                    results := results s @ [analysis],
                    urlsToCrawl :=
                      foldl (offerLink lib pageUrl crawled) (urlsToCrawl s)
                        (filter (\<lambda>link. isInternal link \<and> \<not> isNofollow link) (links analysis)),
                    crawledUrls := crawled,
                    events := events s @ [Crawling pageUrl, Sleep (delayMs cd)] \<rparr>)))"

text \<open>
  The loop over the snapshot: the list argument is the part of it still to be iterated.
  Additions to \<open>urlsToCrawl\<close> in the state do not reach it.
\<close>

fun crawlLoop :: "'w lib \<Rightarrow> int \<Rightarrow> int option \<Rightarrow> string list \<Rightarrow> 'w crawl_state \<Rightarrow> 'w crawl_state" where
  "crawlLoop lib mp cd [] s = s"
| "crawlLoop lib mp cd (pageUrl # rest) s =
     (if int (length (crawledUrls s)) \<ge> mp then s
      else crawlLoop lib mp cd rest (crawlBody lib cd pageUrl s))"

text \<open>
  The states of the loop at the head of every iteration and at its exit, each with the
  part of the copy that is still to be iterated.
\<close>

fun loopStates ::
  "'w lib \<Rightarrow> int \<Rightarrow> int option \<Rightarrow> string list \<Rightarrow> 'w crawl_state \<Rightarrow> (string list \<times> 'w crawl_state) list" where
  "loopStates lib mp cd [] s = [([], s)]"
| "loopStates lib mp cd (pageUrl # rest) s =
     (pageUrl # rest, s) #
     (if int (length (crawledUrls s)) \<ge> mp then []
      else loopStates lib mp cd rest (crawlBody lib cd pageUrl s))"

text \<open>The loop over the sitemap addresses that fills \<open>urlsToCrawl\<close>.\<close>

fun seedSitemaps ::
  "nat \<Rightarrow> 'w lib \<Rightarrow> 'w \<Rightarrow> string list \<Rightarrow> string list \<Rightarrow> (string list \<times> 'w) option" where
  "seedSitemaps fuel lib w [] toCrawl = Some (toCrawl, w)"
| "seedSitemaps fuel lib w (sitemapUrl # rest) toCrawl =
     (case fetchSitemap fuel lib w sitemapUrl of
        None \<Rightarrow> None
      | Some (urls, w1) \<Rightarrow> seedSitemaps fuel lib w1 rest (foldl setAdd toCrawl urls))"

text \<open>
  A call of \<open>crawlSite\<close> returns, throws (the seed address does not parse), or does
  not return (the sitemap recursion is unbounded).
\<close>

datatype 'a outcome = Returns 'a | Throws | Diverges

text \<open>\<open>urlsToCrawl\<close> when the loop starts.\<close>

definition seedFrontier ::
  "nat \<Rightarrow> 'w lib \<Rightarrow> CrawlConfig \<Rightarrow> string \<Rightarrow> RobotsTxt \<Rightarrow> 'w \<Rightarrow> (string list \<times> 'w) option" where
  "seedFrontier fuel lib config baseUrl robotsTxt w =
     (if (case followSitemap config of None \<Rightarrow> True | Some b \<Rightarrow> b)
      then seedSitemaps fuel lib w
             (if length (sitemaps robotsTxt) > 0 then sitemaps robotsTxt
              else [baseUrl @ ''/sitemap.xml''])
             [config_url config]
      else Some ([config_url config], w))"

definition initState :: "'w \<Rightarrow> string list \<Rightarrow> 'w crawl_state" where
  "initState w toCrawl =
     \<lparr> world = w, results = [], urlsToCrawl = toCrawl, crawledUrls = [],
       snapshot = toCrawl, events = [] \<rparr>"

definition maxPagesOf :: "CrawlConfig \<Rightarrow> int" where
  "maxPagesOf config = (case maxPages config of None \<Rightarrow> 100 | Some m \<Rightarrow> m)"

text \<open>The crawl from the point where \<open>robotsTxt\<close> is known, up to the last state of the loop.\<close>

definition crawlFrom ::
  "nat \<Rightarrow> 'w lib \<Rightarrow> CrawlConfig \<Rightarrow> string \<Rightarrow> RobotsTxt \<Rightarrow> 'w \<Rightarrow> 'w crawl_state outcome" where
  "crawlFrom fuel lib config baseUrl robotsTxt w =
     (case seedFrontier fuel lib config baseUrl robotsTxt w of
        None \<Rightarrow> Diverges
      | Some (toCrawl, w1) \<Rightarrow>
          Returns (crawlLoop lib (maxPagesOf config) (crawlDelay robotsTxt) toCrawl
                     (initState w1 toCrawl)))"

definition crawlRun :: "nat \<Rightarrow> 'w lib \<Rightarrow> CrawlConfig \<Rightarrow> 'w \<Rightarrow> 'w crawl_state outcome" where
  "crawlRun fuel lib config w =
     (case newURL lib (config_url config) None of
        None \<Rightarrow> Throws
      | Some u \<Rightarrow>
          (let baseUrl = url_origin u;
               (robotsTxt, w1) =
                 (if (case respectRobotsTxt config of None \<Rightarrow> True | Some b \<Rightarrow> b)
                  then fetchRobotsTxt lib w baseUrl
                  else (emptyRobots, w))
           in crawlFrom fuel lib config baseUrl robotsTxt w1))"

text \<open>What the caller receives: the \<open>results\<close> array.\<close>

definition crawlSite :: "nat \<Rightarrow> 'w lib \<Rightarrow> CrawlConfig \<Rightarrow> 'w \<Rightarrow> PageAnalysis list outcome" where
  "crawlSite fuel lib config w =
     (case crawlRun fuel lib config w of
        Returns s \<Rightarrow> Returns (results s)
      | Throws \<Rightarrow> Throws
      | Diverges \<Rightarrow> Diverges)"

subsection \<open>Auxiliary notions for the properties\<close>

text \<open>A line that the third branch of the robots loop takes, and the value it assigns.\<close>

definition isCrawlDelayLine :: "string \<Rightarrow> bool" where
  "isCrawlDelayLine line = startsWith (toLowerCase (trim line)) ''crawl-delay:''"

definition crawlDelayOfLine :: "string \<Rightarrow> int option" where
  "crawlDelayOfLine line = orNull (parseInt (trim (substring (trim line) 12)))"

text \<open>
  What the events say about the addresses: none of the addresses still to be iterated
  has been attempted; an error line follows an attempt of an address that is not in
  \<open>crawledUrls\<close>; no address is attempted twice; an attempt ends in an error line or in
  \<open>crawledUrls\<close>.
\<close>

definition attemptsInv :: "string list \<Rightarrow> 'w crawl_state \<Rightarrow> bool" where
  "attemptsInv ps s =
     ((\<forall>u. Crawling u \<in> set (events s) \<longrightarrow> u \<notin> set ps)
    \<and> (\<forall>u. CrawlError u \<in> set (events s) \<longrightarrow>
           Crawling u \<in> set (events s) \<and> u \<notin> set (crawledUrls s))
    \<and> (\<forall>u. count_list (events s) (Crawling u) \<le> 1)
    \<and> (\<forall>u. Crawling u \<in> set (events s) \<longrightarrow>
           CrawlError u \<in> set (events s) \<or> u \<in> set (crawledUrls s)))"

text \<open>
  The events of one attempt of an address, given the addresses that end up in
  \<open>crawledUrls\<close>: the log line, then the sleep if the address was crawled and the
  error line if it was not.
\<close>

definition attemptEvents :: "int \<Rightarrow> string list \<Rightarrow> string \<Rightarrow> event list" where
  "attemptEvents ms crawled u = [Crawling u, if u \<in> set crawled then Sleep ms else CrawlError u]"

subsection \<open>Concrete sites\<close>

text \<open>
  Libraries given by finite tables, for running the service on concrete sites. The world
  is the list of the addresses fetched so far. \<open>newURL\<close> is \<open>None\<close> off its table; the
  tables below hold what the \<open>URL\<close> class answers on the addresses used, and leave out
  \<open>http://\<close> and \<open>//[\<close>, on which it throws.
\<close>

definition tableLib ::
  "((string \<times> string option) \<times> URL) list \<Rightarrow> ((bool \<times> string) \<times> node list) list
   \<Rightarrow> (string \<times> string) list \<Rightarrow> (string list) lib" where
  "tableLib urls docs pages =
     \<lparr> newURL = (\<lambda>input base. map_of urls (input, base)),
       fetchPage = (\<lambda>w u. (case map_of pages u of
                               None \<Rightarrow> None
                             | Some h \<Rightarrow> Some \<lparr> html = h, statusCode = 200, loadTime = 0 \<rparr>,
                             w @ [u])),
       cheerio_load = (\<lambda>xmlMode t. case map_of docs (xmlMode, t) of None \<Rightarrow> [] | Some d \<Rightarrow> d) \<rparr>"

definition mkURL :: "string \<Rightarrow> string \<Rightarrow> string \<Rightarrow> URL" where
  "mkURL h host orig = \<lparr> url_href = h, url_hostname = host, url_origin = orig \<rparr>"

definition onExample :: "string \<Rightarrow> URL" where
  "onExample path = mkURL (''https://example.com'' @ path) ''example.com'' ''https://example.com''"

definition onOther :: "string \<Rightarrow> URL" where
  "onOther path = mkURL (''https://other.com'' @ path) ''other.com'' ''https://other.com''"

definition demoUrls :: "((string \<times> string option) \<times> URL) list" where
  "demoUrls =
    [((''https://example.com/'', None), onExample ''/''),
     ((''https://example.com'', None), onExample ''/''),
     ((''/robots.txt'', Some ''https://example.com''), onExample ''/robots.txt''),
     ((''https://example.com/a'', None), onExample ''/a''),
     ((''https://example.com/p1'', None), onExample ''/p1''),
     ((''https://example.com/p2'', None), onExample ''/p2''),
     ((''https://example.com/p3'', None), onExample ''/p3''),
     ((''https://other.com/p'', None), onOther ''/p''),
     ((''https://example.com/b'', None), onExample ''/b''),
     ((''/b'', Some ''https://example.com/''), onExample ''/b''),
     ((''/b'', Some ''https://example.com/a''), onExample ''/b''),
     ((''/b'', Some ''https://example.com/p1''), onExample ''/b''),
     ((''https://other.com/b'', Some ''https://example.com/a''), onOther ''/b''),
     ((''contact'', Some ''https://example.com/a''), onExample ''/contact''),
     ((''/b'', Some ''https://other.com/p''), onOther ''/b'')]"

definition anchor :: "string \<Rightarrow> string \<Rightarrow> node" where
  "anchor h t = Element ''a'' [(''href'', h)] [Text t]"

definition htmlDoc :: "node list \<Rightarrow> node list" where
  "htmlDoc body = [Element ''html'' [] [Element ''head'' [] [], Element ''body'' [] body]]"

definition locEntry :: "string \<Rightarrow> string \<Rightarrow> node" where
  "locEntry tag u = Element tag [] [Element ''loc'' [] [Text u]]"

definition htmlLinkB :: string where
  "htmlLinkB = ''<a href=/b>B</a>''"

definition htmlPlain :: string where
  "htmlPlain = ''<p>plain</p>''"

definition htmlFiveLinks :: string where
  "htmlFiveLinks = ''<a href=/b>B</a><a href=https://other.com/b>O</a><a href=contact>C</a><a href=http://>X</a><a href=//[>Y</a>''"

definition xmlThreePages :: string where
  "xmlThreePages = ''<urlset><url><loc>https://example.com/p1</loc></url><url><loc>https://example.com/p2</loc></url><url><loc>https://example.com/p3</loc></url></urlset>''"

definition xmlOtherHost :: string where
  "xmlOtherHost = ''<urlset><url><loc>https://other.com/p</loc></url></urlset>''"

definition xmlMixed :: string where
  "xmlMixed = ''<sitemapindex><sitemap><loc>https://example.com/sm1.xml</loc></sitemap><url><loc>https://example.com/feed.xml</loc></url></sitemapindex>''"

definition xmlOnlyP2 :: string where
  "xmlOnlyP2 = ''<urlset><url><loc>https://example.com/p2</loc></url></urlset>''"

definition xmlOnlyP3 :: string where
  "xmlOnlyP3 = ''<urlset><url><loc>https://example.com/p3</loc></url></urlset>''"

definition xmlHomeOnly :: string where
  "xmlHomeOnly = ''<urlset><url><loc>https://example.com/</loc></url></urlset>''"

definition demoDocs :: "((bool \<times> string) \<times> node list) list" where
  "demoDocs =
    [((False, htmlLinkB), htmlDoc [anchor ''/b'' ''B'']),
     ((False, htmlPlain), htmlDoc [Element ''p'' [] [Text ''plain'']]),
     ((False, htmlFiveLinks),
        htmlDoc [anchor ''/b'' ''B'', anchor ''https://other.com/b'' ''O'', anchor ''contact'' ''C'',
                 anchor ''http://'' ''X'', anchor ''//['' ''Y'']),
     ((True, xmlThreePages),
        [Element ''urlset'' []
           [locEntry ''url'' ''https://example.com/p1'', locEntry ''url'' ''https://example.com/p2'',
            locEntry ''url'' ''https://example.com/p3'']]),
     ((True, xmlOtherHost), [Element ''urlset'' [] [locEntry ''url'' ''https://other.com/p'']]),
     ((True, xmlMixed),
        [Element ''sitemapindex'' []
           [locEntry ''sitemap'' ''https://example.com/sm1.xml'',
            locEntry ''url'' ''https://example.com/feed.xml'']]),
     ((True, xmlHomeOnly), [Element ''urlset'' [] [locEntry ''url'' ''https://example.com/'']]),
     ((True, xmlOnlyP2), [Element ''urlset'' [] [locEntry ''url'' ''https://example.com/p2'']]),
     ((True, xmlOnlyP3), [Element ''urlset'' [] [locEntry ''url'' ''https://example.com/p3'']])]"

definition demoSite :: "(string \<times> string) list \<Rightarrow> (string list) lib" where
  "demoSite pages = tableLib demoUrls demoDocs pages"

text \<open>The home page links to \<open>/b\<close>, which exists; page \<open>/a\<close> has five links.\<close>

definition siteLinks :: "(string list) lib" where
  "siteLinks = demoSite
     [(''https://example.com/'', htmlLinkB),
      (''https://example.com/b'', htmlPlain),
      (''https://example.com/a'', htmlFiveLinks)]"

text \<open>A sitemap lists three pages, of which \<open>/p1\<close> cannot be fetched.\<close>

definition siteBroken :: "(string list) lib" where
  "siteBroken = demoSite
     [(''https://example.com/'', htmlPlain),
      (''https://example.com/sitemap.xml'', xmlThreePages),
      (''https://example.com/p2'', htmlPlain),
      (''https://example.com/p3'', htmlPlain)]"

text \<open>The same site with \<open>/p1\<close> in place.\<close>

definition siteWhole :: "(string list) lib" where
  "siteWhole = demoSite
     [(''https://example.com/'', htmlPlain),
      (''https://example.com/sitemap.xml'', xmlThreePages),
      (''https://example.com/p1'', htmlPlain),
      (''https://example.com/p2'', htmlPlain),
      (''https://example.com/p3'', htmlPlain)]"

text \<open>A sitemap document with one index entry and one page entry.\<close>

definition siteMixed :: "(string list) lib" where
  "siteMixed = demoSite
     [(''https://example.com/sitemap.xml'', xmlMixed),
      (''https://example.com/sm1.xml'', xmlOnlyP2),
      (''https://example.com/feed.xml'', xmlOnlyP3)]"

text \<open>The sitemap lists a page of another host, which links to \<open>/b\<close>.\<close>

definition siteOther :: "(string list) lib" where
  "siteOther = demoSite
     [(''https://example.com/'', htmlPlain),
      (''https://example.com/sitemap.xml'', xmlOtherHost),
      (''https://other.com/p'', htmlLinkB)]"

text \<open>The site of three pages where \<open>/p1\<close> links to \<open>/b\<close>.\<close>

definition siteLinked :: "(string list) lib" where
  "siteLinked = demoSite
     [(''https://example.com/'', htmlPlain),
      (''https://example.com/sitemap.xml'', xmlThreePages),
      (''https://example.com/p1'', htmlLinkB),
      (''https://example.com/p2'', htmlPlain),
      (''https://example.com/p3'', htmlPlain)]"

text \<open>
  The home page answers to the address with and without the final slash, and the
  sitemap lists it with the slash.
\<close>

definition siteTwice :: "(string list) lib" where
  "siteTwice = demoSite
     [(''https://example.com'', htmlPlain),
      (''https://example.com/'', htmlPlain),
      (''https://example.com/sitemap.xml'', xmlHomeOnly)]"

text \<open>A site that serves only the given robots.txt.\<close>

definition siteRobots :: "string \<Rightarrow> (string list) lib" where
  "siteRobots body = demoSite [(''https://example.com/robots.txt'', body)]"

definition configNoSitemap :: CrawlConfig where
  "configNoSitemap = \<lparr> config_url = ''https://example.com/'', maxPages = None,
                        followSitemap = Some False, respectRobotsTxt = Some False \<rparr>"

definition configTwoPages :: CrawlConfig where
  "configTwoPages = \<lparr> config_url = ''https://example.com/'', maxPages = Some 2,
                       followSitemap = None, respectRobotsTxt = Some False \<rparr>"

definition configNoLimit :: CrawlConfig where
  "configNoLimit = \<lparr> config_url = ''https://example.com/'', maxPages = None,
                      followSitemap = None, respectRobotsTxt = Some False \<rparr>"

definition configNoSlash :: CrawlConfig where
  "configNoSlash = \<lparr> config_url = ''https://example.com'', maxPages = None,
                      followSitemap = None, respectRobotsTxt = Some False \<rparr>"

definition configMinusOne :: CrawlConfig where
  "configMinusOne = \<lparr> config_url = ''https://example.com/'', maxPages = Some (- 1),
                       followSitemap = None, respectRobotsTxt = Some False \<rparr>"

definition configDefault :: CrawlConfig where
  "configDefault = \<lparr> config_url = ''https://example.com/'', maxPages = None,
                      followSitemap = None, respectRobotsTxt = None \<rparr>"

text \<open>The broken site with a robots.txt that asks for two seconds between requests.\<close>

definition sitePolite :: "(string list) lib" where
  "sitePolite = demoSite
     [(''https://example.com/robots.txt'', ''Crawl-delay: 2''),
      (''https://example.com/'', htmlPlain),
      (''https://example.com/sitemap.xml'', xmlThreePages),
      (''https://example.com/p2'', htmlPlain),
      (''https://example.com/p3'', htmlPlain)]"

text \<open>
  The broken site with a robots.txt whose last crawl delay is zero.
\<close>

definition siteDelayZero :: "(string list) lib" where
  "siteDelayZero = demoSite
     [(''https://example.com/robots.txt'', ''User-agent: *\<newline>Crawl-delay: 5\<newline>Crawl-delay: 0''),
      (''https://example.com/'', htmlPlain),
      (''https://example.com/sitemap.xml'', xmlThreePages),
      (''https://example.com/p2'', htmlPlain),
      (''https://example.com/p3'', htmlPlain)]"

text \<open>The states in which the crawls of these sites end, and the records of their pages.\<close>

definition mkLink :: "string \<Rightarrow> string \<Rightarrow> bool \<Rightarrow> LinkInfo" where
  "mkLink h t i = \<lparr> href = h, linkText = t, isInternal = i, isNofollow = False \<rparr>"

definition pageFive :: PageAnalysis where
  "pageFive =
     \<lparr> url = ''https://example.com/a'',
       links = [mkLink ''/b'' ''B'' True, mkLink ''https://other.com/b'' ''O'' False,
                mkLink ''contact'' ''C'' True, mkLink ''http://'' ''X'' False,
                mkLink ''//['' ''Y'' True],
       pageLoadTime = 0, pageStatusCode = 200 \<rparr>"


definition pagePlain :: "string \<Rightarrow> PageAnalysis" where
  "pagePlain u = \<lparr> url = u, links = [], pageLoadTime = 0, pageStatusCode = 200 \<rparr>"

definition pageLinkB :: "string \<Rightarrow> PageAnalysis" where
  "pageLinkB u =
     \<lparr> url = u,
       links = [\<lparr> href = ''/b'', linkText = ''B'', isInternal = True, isNofollow = False \<rparr>],
       pageLoadTime = 0, pageStatusCode = 200 \<rparr>"

definition fourUrls :: "string list" where
  "fourUrls = [''https://example.com/'', ''https://example.com/p1'',
               ''https://example.com/p2'', ''https://example.com/p3'']"

definition stateLinks :: "(string list) crawl_state" where
  "stateLinks =
     \<lparr> world = [''https://example.com/''],
       results = [pageLinkB ''https://example.com/''],
       urlsToCrawl = [''https://example.com/'', ''https://example.com/b''],
       crawledUrls = [''https://example.com/''],
       snapshot = [''https://example.com/''],
       events = [Crawling ''https://example.com/'', Sleep 1000] \<rparr>"

definition stateBroken :: "(string list) crawl_state" where
  "stateBroken =
     \<lparr> world = [''https://example.com/sitemap.xml'', ''https://example.com/'',
                ''https://example.com/p1'', ''https://example.com/p2''],
       results = [pagePlain ''https://example.com/'', pagePlain ''https://example.com/p2''],
       urlsToCrawl = fourUrls,
       crawledUrls = [''https://example.com/'', ''https://example.com/p2''],
       snapshot = fourUrls,
       events = [Crawling ''https://example.com/'', Sleep 1000,
                 Crawling ''https://example.com/p1'', CrawlError ''https://example.com/p1'',
                 Crawling ''https://example.com/p2'', Sleep 1000] \<rparr>"

definition stateWhole :: "(string list) crawl_state" where
  "stateWhole =
     \<lparr> world = [''https://example.com/sitemap.xml'', ''https://example.com/'',
                ''https://example.com/p1''],
       results = [pagePlain ''https://example.com/'', pagePlain ''https://example.com/p1''],
       urlsToCrawl = fourUrls,
       crawledUrls = [''https://example.com/'', ''https://example.com/p1''],
       snapshot = fourUrls,
       events = [Crawling ''https://example.com/'', Sleep 1000,
                 Crawling ''https://example.com/p1'', Sleep 1000] \<rparr>"

definition stateAfterHome :: "(string list) crawl_state" where
  "stateAfterHome =
     \<lparr> world = [''https://example.com/sitemap.xml'', ''https://example.com/''],
       results = [pagePlain ''https://example.com/''],
       urlsToCrawl = fourUrls,
       crawledUrls = [''https://example.com/''],
       snapshot = fourUrls,
       events = [Crawling ''https://example.com/'', Sleep 1000] \<rparr>"

definition stateBrokenAll :: "(string list) crawl_state" where
  "stateBrokenAll =
     \<lparr> world = [''https://example.com/sitemap.xml'', ''https://example.com/'',
                ''https://example.com/p1'', ''https://example.com/p2'',
                ''https://example.com/p3''],
       results = [pagePlain ''https://example.com/'', pagePlain ''https://example.com/p2'',
                  pagePlain ''https://example.com/p3''],
       urlsToCrawl = fourUrls,
       crawledUrls = [''https://example.com/'', ''https://example.com/p2'',
                      ''https://example.com/p3''],
       snapshot = fourUrls,
       events = [Crawling ''https://example.com/'', Sleep 1000,
                 Crawling ''https://example.com/p1'', CrawlError ''https://example.com/p1'',
                 Crawling ''https://example.com/p2'', Sleep 1000,
                 Crawling ''https://example.com/p3'', Sleep 1000] \<rparr>"

definition stateDelayZero :: "(string list) crawl_state" where
  "stateDelayZero =
     \<lparr> world = [''https://example.com/robots.txt'', ''https://example.com/sitemap.xml'',
                ''https://example.com/'', ''https://example.com/p1'',
                ''https://example.com/p2'', ''https://example.com/p3''],
       results = [pagePlain ''https://example.com/'', pagePlain ''https://example.com/p2'',
                  pagePlain ''https://example.com/p3''],
       urlsToCrawl = fourUrls,
       crawledUrls = [''https://example.com/'', ''https://example.com/p2'',
                      ''https://example.com/p3''],
       snapshot = fourUrls,
       events = [Crawling ''https://example.com/'', Sleep 1000,
                 Crawling ''https://example.com/p1'', CrawlError ''https://example.com/p1'',
                 Crawling ''https://example.com/p2'', Sleep 1000,
                 Crawling ''https://example.com/p3'', Sleep 1000] \<rparr>"

definition statePolite :: "(string list) crawl_state" where
  "statePolite =
     \<lparr> world = [''https://example.com/robots.txt'', ''https://example.com/sitemap.xml'',
                ''https://example.com/'', ''https://example.com/p1'',
                ''https://example.com/p2'', ''https://example.com/p3''],
       results = [pagePlain ''https://example.com/'', pagePlain ''https://example.com/p2'',
                  pagePlain ''https://example.com/p3''],
       urlsToCrawl = fourUrls,
       crawledUrls = [''https://example.com/'', ''https://example.com/p2'',
                      ''https://example.com/p3''],
       snapshot = fourUrls,
       events = [Crawling ''https://example.com/'', Sleep 2000,
                 Crawling ''https://example.com/p1'', CrawlError ''https://example.com/p1'',
                 Crawling ''https://example.com/p2'', Sleep 2000,
                 Crawling ''https://example.com/p3'', Sleep 2000] \<rparr>"

section \<open>Properties\<close>

subsection \<open>One iteration of the crawl loop\<close>

lemma analyzePage_url: "analyzePage lib w p = (Some a, w1) \<Longrightarrow> url a = p"
  by (auto simp: analyzePage_def split: prod.splits option.splits)

lemma crawlBody_skip: "p \<in> set (crawledUrls s) \<Longrightarrow> crawlBody lib cd p s = s"
  by (simp add: crawlBody_def)

lemma crawlBody_fail:
  "p \<notin> set (crawledUrls s) \<Longrightarrow> analyzePage lib (world s) p = (None, w1) \<Longrightarrow>
   crawlBody lib cd p s = s\<lparr> world := w1, events := events s @ [Crawling p, CrawlError p] \<rparr>"
  by (simp add: crawlBody_def)

lemma crawlBody_ok:
  "p \<notin> set (crawledUrls s) \<Longrightarrow> analyzePage lib (world s) p = (Some a, w1) \<Longrightarrow>
   crawlBody lib cd p s =
     s\<lparr> world := w1, results := results s @ [a],
        urlsToCrawl := foldl (offerLink lib p (crawledUrls s @ [p])) (urlsToCrawl s)
                         (filter (\<lambda>link. isInternal link \<and> \<not> isNofollow link) (links a)),
        crawledUrls := crawledUrls s @ [p],
        events := events s @ [Crawling p, Sleep (delayMs cd)] \<rparr>"
  by (simp add: crawlBody_def setAdd_def Let_def)

lemma crawlBody_cases:
  obtains (skip) "p \<in> set (crawledUrls s)" "crawlBody lib cd p s = s"
  | (fail) w1 where "p \<notin> set (crawledUrls s)" "analyzePage lib (world s) p = (None, w1)"
      "crawlBody lib cd p s = s\<lparr> world := w1, events := events s @ [Crawling p, CrawlError p] \<rparr>"
  | (ok) a w1 where "p \<notin> set (crawledUrls s)" "analyzePage lib (world s) p = (Some a, w1)"
      "url a = p"
      "crawlBody lib cd p s =
        s\<lparr> world := w1, results := results s @ [a],
        urlsToCrawl := foldl (offerLink lib p (crawledUrls s @ [p])) (urlsToCrawl s)
                         (filter (\<lambda>link. isInternal link \<and> \<not> isNofollow link) (links a)),
        crawledUrls := crawledUrls s @ [p],
        events := events s @ [Crawling p, Sleep (delayMs cd)] \<rparr>"
proof (cases "p \<in> set (crawledUrls s)")
  case True
  then show ?thesis using skip crawlBody_skip by blast
next
  case False
  obtain r w1 where r: "analyzePage lib (world s) p = (r, w1)" by (cases "analyzePage lib (world s) p")
  show ?thesis
  proof (cases r)
    case None
    show ?thesis
      by (rule fail [OF False r [unfolded None] crawlBody_fail [OF False r [unfolded None]]])
  next
    case (Some a)
    show ?thesis
      by (rule ok [OF False r [unfolded Some] analyzePage_url [OF r [unfolded Some]]
                   crawlBody_ok [OF False r [unfolded Some]]])
  qed
qed

lemma crawlBody_snapshot: "snapshot (crawlBody lib cd p s) = snapshot s"
  by (rule crawlBody_cases [of p s lib cd]) simp_all

lemma crawlBody_results_urls:
  "map url (results s) = crawledUrls s \<Longrightarrow>
   map url (results (crawlBody lib cd p s)) = crawledUrls (crawlBody lib cd p s)"
  by (rule crawlBody_cases [of p s lib cd]) simp_all

lemma crawlBody_distinct:
  "distinct (crawledUrls s) \<Longrightarrow> distinct (crawledUrls (crawlBody lib cd p s))"
  by (rule crawlBody_cases [of p s lib cd]) simp_all

lemma crawlBody_length:
  "length (crawledUrls (crawlBody lib cd p s)) \<le> Suc (length (crawledUrls s))"
  by (rule crawlBody_cases [of p s lib cd]) simp_all

subsection \<open>The loop as a whole\<close>

lemma crawlLoop_snapshot: "snapshot (crawlLoop lib mp cd ps s) = snapshot s"
  by (induction ps arbitrary: s) (simp_all add: crawlBody_snapshot)

lemma crawlLoop_results_urls:
  "map url (results s) = crawledUrls s \<Longrightarrow>
   map url (results (crawlLoop lib mp cd ps s)) = crawledUrls (crawlLoop lib mp cd ps s)"
  by (induction ps arbitrary: s) (simp_all add: crawlBody_results_urls)

lemma crawlLoop_distinct:
  "distinct (crawledUrls s) \<Longrightarrow> distinct (crawledUrls (crawlLoop lib mp cd ps s))"
  by (induction ps arbitrary: s) (simp_all add: crawlBody_distinct)

lemma crawlLoop_length:
  "int (length (crawledUrls s)) \<le> mp \<Longrightarrow>
   int (length (crawledUrls (crawlLoop lib mp cd ps s))) \<le> mp"
proof (induction ps arbitrary: s)
  case Nil
  then show ?case by simp
next
  case (Cons p ps)
  show ?case
  proof (cases "int (length (crawledUrls s)) \<ge> mp")
    case True
    then show ?thesis using Cons.prems by simp
  next
    case False
    then have "int (length (crawledUrls (crawlBody lib cd p s))) \<le> mp"
      using crawlBody_length [of lib cd p s] by linarith
    then show ?thesis using False Cons.IH by simp
  qed
qed

lemma crawlLoop_all_ok:
  assumes "\<forall>w. \<forall>u\<in>set ps. fst (analyzePage lib w u) \<noteq> None"
      and "distinct ps" and "set ps \<inter> set (crawledUrls s) = {}"
  shows "crawledUrls (crawlLoop lib mp cd ps s)
           = crawledUrls s @ take (nat (mp - int (length (crawledUrls s)))) ps"
  using assms
proof (induction ps arbitrary: s)
  case Nil
  then show ?case by simp
next
  case (Cons p ps)
  show ?case
  proof (cases "int (length (crawledUrls s)) \<ge> mp")
    case True
    then show ?thesis by simp
  next
    case False
    have pn: "p \<notin> set (crawledUrls s)" using Cons.prems(3) by auto
    obtain r w1 where r: "analyzePage lib (world s) p = (r, w1)"
      by (cases "analyzePage lib (world s) p")
    with Cons.prems(1) obtain a where a: "r = Some a" by (cases r) (auto dest: spec [of _ "world s"])
    let ?s = "crawlBody lib cd p s"
    have c: "crawledUrls ?s = crawledUrls s @ [p]"
      using crawlBody_ok [OF pn r [unfolded a]] by simp
    have "crawledUrls (crawlLoop lib mp cd ps ?s)
            = crawledUrls ?s @ take (nat (mp - int (length (crawledUrls ?s)))) ps"
      using Cons.prems c by (intro Cons.IH) auto
    moreover have "nat (mp - int (length (crawledUrls s))) = Suc (nat (mp - int (length (crawledUrls ?s))))"
      using False c by simp
    ultimately show ?thesis using False c by simp
  qed
qed

subsection \<open>Seeding the queue\<close>

lemma setAdd_distinct: "distinct xs \<Longrightarrow> distinct (setAdd xs x)"
  by (simp add: setAdd_def)

lemma foldl_setAdd_distinct: "distinct xs \<Longrightarrow> distinct (foldl setAdd xs us)"
  by (induction us arbitrary: xs) (simp_all add: setAdd_distinct)

lemma seedSitemaps_distinct:
  "seedSitemaps fuel lib w sms xs = Some (ys, w1) \<Longrightarrow> distinct xs \<Longrightarrow> distinct ys"
  by (induction sms arbitrary: w xs)
     (auto simp: foldl_setAdd_distinct split: option.splits prod.splits)

lemma seedFrontier_distinct:
  "seedFrontier fuel lib config baseUrl robotsTxt w = Some (ys, w1) \<Longrightarrow> distinct ys"
proof (cases "case followSitemap config of None \<Rightarrow> True | Some b \<Rightarrow> b")
  case True
  assume "seedFrontier fuel lib config baseUrl robotsTxt w = Some (ys, w1)"
  with True have "seedSitemaps fuel lib w
             (if length (sitemaps robotsTxt) > 0 then sitemaps robotsTxt
              else [baseUrl @ ''/sitemap.xml''])
             [config_url config] = Some (ys, w1)"
    by (simp only: seedFrontier_def if_True)
  then show ?thesis by (rule seedSitemaps_distinct) simp
next
  case False
  assume "seedFrontier fuel lib config baseUrl robotsTxt w = Some (ys, w1)"
  with False show ?thesis by (auto simp: seedFrontier_def)
qed

lemma foldl_setAdd_prefix: "\<exists>ys. foldl setAdd xs us = xs @ ys"
proof (induction us arbitrary: xs)
  case Nil
  then show ?case by simp
next
  case (Cons u us)
  obtain ys where ys: "foldl setAdd (setAdd xs u) us = setAdd xs u @ ys"
    using Cons.IH by blast
  obtain zs where zs: "setAdd xs u = xs @ zs"
    by (cases "u \<in> set xs") (simp_all add: setAdd_def)
  have "foldl setAdd xs (u # us) = foldl setAdd (setAdd xs u) us"
    by simp
  also have "\<dots> = xs @ (zs @ ys)"
    using ys by (simp add: zs)
  finally show ?case by blast
qed

lemma seedSitemaps_prefix:
  "seedSitemaps fuel lib w sms xs = Some (ys, w1) \<Longrightarrow> \<exists>zs. ys = xs @ zs"
proof (induction sms arbitrary: w xs)
  case Nil
  then show ?case by simp
next
  case (Cons sm sms)
  from Cons.prems obtain urls w2 where
    "seedSitemaps fuel lib w2 sms (foldl setAdd xs urls) = Some (ys, w1)"
    by (auto split: option.splits prod.splits)
  then obtain zs where "ys = foldl setAdd xs urls @ zs" using Cons.IH by blast
  moreover obtain vs where "foldl setAdd xs urls = xs @ vs"
    using foldl_setAdd_prefix by blast
  ultimately show ?case by simp
qed

lemma seedFrontier_seed_first:
  "seedFrontier fuel lib config baseUrl robotsTxt w = Some (ys, w1) \<Longrightarrow>
   \<exists>zs. ys = config_url config # zs"
  by (auto simp: seedFrontier_def dest!: seedSitemaps_prefix split: if_splits
           simp del: seedSitemaps.simps)

lemma crawlRun_Returns:
  assumes "crawlRun fuel lib config w = Returns s"
  obtains cd toCrawl w1 where "distinct toCrawl"
    "s = crawlLoop lib (maxPagesOf config) cd toCrawl (initState w1 toCrawl)"
  using assms
  by (auto simp: crawlRun_def crawlFrom_def Let_def dest: seedFrontier_distinct
           split: option.splits prod.splits if_splits)

lemma crawlSite_results:
  "crawlRun fuel lib config w = Returns s \<Longrightarrow> crawlSite fuel lib config w = Returns (results s)"
  by (simp add: crawlSite_def)

subsection \<open>The bound on the sitemap recursion\<close>

text \<open>
  A larger bound changes nothing in a call that returns within a smaller one: what the
  model returns with some bound is what the code returns.
\<close>

lemma fetchChildren_mono:
  assumes "\<And>w c r. f w c = Some r \<Longrightarrow> g w c = Some r"
  shows "fetchChildren f w cs = Some r \<Longrightarrow> fetchChildren g w cs = Some r"
proof (induction cs arbitrary: w r)
  case Nil
  then show ?case by simp
next
  case (Cons c cs)
  from Cons.prems obtain us w1 vs w2 where
    1: "f w c = Some (us, w1)" and 2: "fetchChildren f w1 cs = Some (vs, w2)"
    and r: "r = (us @ vs, w2)"
    by (auto split: option.splits prod.splits)
  from 1 have "g w c = Some (us, w1)" by (rule assms)
  moreover from 2 have "fetchChildren g w1 cs = Some (vs, w2)" by (rule Cons.IH)
  ultimately show ?case using r by simp
qed

lemma fetchSitemap_Suc:
  "fetchSitemap n lib w u = Some r \<Longrightarrow> fetchSitemap (Suc n) lib w u = Some r"
proof (induction n arbitrary: w u r)
  case 0
  then show ?case by simp
next
  case (Suc n)
  obtain x w1 where f: "fetchPage lib w u = (x, w1)" by (cases "fetchPage lib w u")
  show ?case
  proof (cases x)
    case None
    with f Suc.prems show ?thesis by simp
  next
    case (Some d)
    let ?doc = "cheerio_load lib True (html d)"
    show ?thesis
    proof (cases "length (select ''sitemap'' ?doc) > 0")
      case True
      with f Some Suc.prems
      have "fetchChildren (fetchSitemap n lib) w1 (sitemapLocs ?doc @ urlLocs ?doc) = Some r"
        by (simp add: Let_def)
      then have "fetchChildren (fetchSitemap (Suc n) lib) w1 (sitemapLocs ?doc @ urlLocs ?doc) = Some r"
        by (rule fetchChildren_mono [rotated]) (rule Suc.IH)
      with f Some True show ?thesis
        using fetchSitemap.simps(2) [of "Suc n" lib w u] by (simp add: Let_def)
    next
      case False
      with f Some Suc.prems show ?thesis by (simp add: Let_def)
    qed
  qed
qed

lemma fetchSitemap_mono:
  "fetchSitemap n lib w u = Some r \<Longrightarrow> n \<le> m \<Longrightarrow> fetchSitemap m lib w u = Some r"
  by (induction m) (auto simp: le_Suc_eq dest: fetchSitemap_Suc simp del: fetchSitemap.simps)

lemma seedSitemaps_mono:
  "seedSitemaps n lib w sms xs = Some r \<Longrightarrow> n \<le> m \<Longrightarrow> seedSitemaps m lib w sms xs = Some r"
proof (induction sms arbitrary: w xs)
  case Nil
  then show ?case by simp
next
  case (Cons sm sms)
  from Cons.prems(1) obtain urls w1 where
    1: "fetchSitemap n lib w sm = Some (urls, w1)"
    and 2: "seedSitemaps n lib w1 sms (foldl setAdd xs urls) = Some r"
    by (auto split: option.splits prod.splits)
  from 1 Cons.prems(2) have "fetchSitemap m lib w sm = Some (urls, w1)"
    by (rule fetchSitemap_mono)
  moreover from 2 Cons.prems(2) have "seedSitemaps m lib w1 sms (foldl setAdd xs urls) = Some r"
    by (rule Cons.IH)
  ultimately show ?case by simp
qed

lemma seedFrontier_mono:
  "seedFrontier n lib config baseUrl robotsTxt w = Some r \<Longrightarrow> n \<le> m \<Longrightarrow>
   seedFrontier m lib config baseUrl robotsTxt w = Some r"
  by (auto simp: seedFrontier_def dest: seedSitemaps_mono split: if_splits
           simp del: seedSitemaps.simps)

lemma crawlRun_mono:
  assumes "crawlRun n lib config w = Returns s" and "n \<le> m"
  shows "crawlRun m lib config w = Returns s"
proof -
  from assms(1) obtain u where u: "newURL lib (config_url config) None = Some u"
    by (auto simp: crawlRun_def split: option.splits)
  obtain robotsTxt w1 where
    r: "(if (case respectRobotsTxt config of None \<Rightarrow> True | Some b \<Rightarrow> b)
         then fetchRobotsTxt lib w (url_origin u) else (emptyRobots, w)) = (robotsTxt, w1)"
    by (cases "if (case respectRobotsTxt config of None \<Rightarrow> True | Some b \<Rightarrow> b)
         then fetchRobotsTxt lib w (url_origin u) else (emptyRobots, w)")
  have c: "crawlRun k lib config w = crawlFrom k lib config (url_origin u) robotsTxt w1" for k
    using u r by (simp add: crawlRun_def Let_def)
  from assms(1) obtain toCrawl w2 where
    sf: "seedFrontier n lib config (url_origin u) robotsTxt w1 = Some (toCrawl, w2)"
    and s: "s = crawlLoop lib (maxPagesOf config) (crawlDelay robotsTxt) toCrawl (initState w2 toCrawl)"
    unfolding c by (auto simp: crawlFrom_def split: option.splits prod.splits)
  from sf assms(2) have "seedFrontier m lib config (url_origin u) robotsTxt w1 = Some (toCrawl, w2)"
    by (rule seedFrontier_mono)
  then show ?thesis unfolding c by (simp add: crawlFrom_def s)
qed

subsection \<open>Links offered by a page\<close>

lemma offerLink_cases:
  "offerLink lib p c tc l = tc \<or>
   (\<exists>u. u \<notin> set c \<and> u \<notin> set tc \<and> offerLink lib p c tc l = tc @ [u])"
  by (auto simp: offerLink_def setAdd_def split: option.splits)

lemma foldl_offerLink_mono: "set tc \<subseteq> set (foldl (offerLink lib p c) tc ls)"
proof (induction ls arbitrary: tc)
  case Nil
  then show ?case by simp
next
  case (Cons l ls)
  have "set tc \<subseteq> set (offerLink lib p c tc l)"
    using offerLink_cases [of lib p c tc l] by auto
  also have "\<dots> \<subseteq> set (foldl (offerLink lib p c) (offerLink lib p c tc l) ls)"
    by (rule Cons.IH)
  finally show ?case by simp
qed

lemma foldl_offerLink_distinct:
  "distinct tc \<Longrightarrow> distinct (foldl (offerLink lib p c) tc ls)"
proof (induction ls arbitrary: tc)
  case Nil
  then show ?case by simp
next
  case (Cons l ls)
  have "distinct (offerLink lib p c tc l)"
    using offerLink_cases [of lib p c tc l] Cons.prems by auto
  then show ?case using Cons.IH by simp
qed

lemma foldl_offerLink_new:
  "u \<in> set (foldl (offerLink lib p c) tc ls) \<Longrightarrow> u \<notin> set tc \<Longrightarrow> u \<notin> set c"
proof (induction ls arbitrary: tc)
  case Nil
  then show ?case by simp
next
  case (Cons l ls)
  show ?case
  proof (cases "u \<in> set (offerLink lib p c tc l)")
    case True
    then show ?thesis using offerLink_cases [of lib p c tc l] Cons.prems(2) by auto
  next
    case False
    then show ?thesis using Cons.IH [of "offerLink lib p c tc l"] Cons.prems(1) by simp
  qed
qed

lemma crawlBody_toCrawl_mono: "set (urlsToCrawl s) \<subseteq> set (urlsToCrawl (crawlBody lib cd p s))"
  by (rule crawlBody_cases [of p s lib cd]) (simp_all add: foldl_offerLink_mono)

lemma crawlBody_toCrawl_distinct:
  "distinct (urlsToCrawl s) \<Longrightarrow> distinct (urlsToCrawl (crawlBody lib cd p s))"
  by (rule crawlBody_cases [of p s lib cd]) (simp_all add: foldl_offerLink_distinct)

lemma crawlBody_crawled_subset:
  "set (crawledUrls (crawlBody lib cd p s)) \<subseteq> insert p (set (crawledUrls s))"
  by (rule crawlBody_cases [of p s lib cd]) auto

lemma crawlBody_added_not_crawled:
  assumes "u \<in> set (urlsToCrawl (crawlBody lib cd p s))" and "u \<notin> set (urlsToCrawl s)"
  shows "u \<notin> set (crawledUrls (crawlBody lib cd p s))"
proof (rule crawlBody_cases [of p s lib cd])
  assume "crawlBody lib cd p s = s"
  with assms show ?thesis by simp
next
  fix w1 assume "crawlBody lib cd p s = s\<lparr> world := w1, events := events s @ [Crawling p, CrawlError p] \<rparr>"
  with assms show ?thesis by simp
next
  fix a w1
  assume b: "crawlBody lib cd p s =
        s\<lparr> world := w1, results := results s @ [a],
        urlsToCrawl := foldl (offerLink lib p (crawledUrls s @ [p])) (urlsToCrawl s)
                         (filter (\<lambda>link. isInternal link \<and> \<not> isNofollow link) (links a)),
        crawledUrls := crawledUrls s @ [p],
        events := events s @ [Crawling p, Sleep (delayMs cd)] \<rparr>"
  from assms(1) have "u \<in> set (foldl (offerLink lib p (crawledUrls s @ [p])) (urlsToCrawl s)
                         (filter (\<lambda>link. isInternal link \<and> \<not> isNofollow link) (links a)))"
    unfolding b by simp
  then have "u \<notin> set (crawledUrls s @ [p])" using assms(2) by (rule foldl_offerLink_new)
  then show ?thesis unfolding b by simp
qed

subsection \<open>The states of the loop\<close>

lemma loopStates_inv:
  assumes "(rest, s) \<in> set (loopStates lib mp cd ps s0)"
      and "distinct ps" and "set ps \<inter> set (crawledUrls s0) = {}"
      and "set ps \<union> set (crawledUrls s0) \<subseteq> set (urlsToCrawl s0)"
      and "distinct (urlsToCrawl s0)"
  shows "set rest \<inter> set (crawledUrls s) = {} \<and> set (crawledUrls s) \<subseteq> set (urlsToCrawl s)
         \<and> distinct (urlsToCrawl s)"
  using assms
proof (induction ps arbitrary: s0)
  case Nil
  then show ?case by auto
next
  case (Cons p ps)
  show ?case
  proof (cases "(rest, s) = (p # ps, s0)")
    case True
    then show ?thesis using Cons.prems by auto
  next
    case False
    let ?s = "crawlBody lib cd p s0"
    from False Cons.prems(1) have m: "(rest, s) \<in> set (loopStates lib mp cd ps ?s)"
      by (auto split: if_splits)
    have c: "set (crawledUrls ?s) \<subseteq> insert p (set (crawledUrls s0))"
      by (rule crawlBody_crawled_subset)
    have t: "set (urlsToCrawl s0) \<subseteq> set (urlsToCrawl ?s)"
      by (rule crawlBody_toCrawl_mono)
    show ?thesis
    proof (rule Cons.IH [OF m])
      show "distinct ps" using Cons.prems(2) by simp
      show "set ps \<inter> set (crawledUrls ?s) = {}" using c Cons.prems(2,3) by auto
      show "set ps \<union> set (crawledUrls ?s) \<subseteq> set (urlsToCrawl ?s)"
        using c t Cons.prems(4) by auto
      show "distinct (urlsToCrawl ?s)"
        using Cons.prems(5) by (rule crawlBody_toCrawl_distinct)
    qed
  qed
qed

lemma loopStates_nonempty: "loopStates lib mp cd ps s \<noteq> []"
  by (cases ps) simp_all

lemma loopStates_last: "snd (last (loopStates lib mp cd ps s)) = crawlLoop lib mp cd ps s"
  by (induction ps arbitrary: s) (simp_all add: loopStates_nonempty)

text \<open>The last of these states is the state in which the crawl ends.\<close>

lemma crawlFrom_last_state:
  assumes "crawlFrom fuel lib config baseUrl robotsTxt w = Returns s"
  obtains toCrawl w1 where
    "seedFrontier fuel lib config baseUrl robotsTxt w = Some (toCrawl, w1)"
    "s = snd (last (loopStates lib (maxPagesOf config) (crawlDelay robotsTxt) toCrawl
                       (initState w1 toCrawl)))"
  using assms
  by (auto simp: crawlFrom_def loopStates_last split: option.splits prod.splits)

subsection \<open>Attempts and how they end\<close>

lemma attemptsInv_weaken: "attemptsInv ps s \<Longrightarrow> set qs \<subseteq> set ps \<Longrightarrow> attemptsInv qs s"
  unfolding attemptsInv_def by blast

lemma crawlBody_attemptsInv:
  assumes d: "distinct (p # ps)" and i: "attemptsInv (p # ps) s"
  shows "attemptsInv ps (crawlBody lib cd p s)"
proof (rule crawlBody_cases [of p s lib cd])
  assume "crawlBody lib cd p s = s"
  then show ?thesis using i attemptsInv_weaken [of "p # ps" s ps] by auto
next
  have np: "Crawling p \<notin> set (events s)" using i unfolding attemptsInv_def by auto
  then have c0: "count_list (events s) (Crawling p) = 0" by simp
  {
    fix w1
    assume n: "p \<notin> set (crawledUrls s)"
      and b: "crawlBody lib cd p s = s\<lparr> world := w1, events := events s @ [Crawling p, CrawlError p] \<rparr>"
    show ?thesis
      unfolding attemptsInv_def b using i d n c0 unfolding attemptsInv_def by auto
  next
    fix a w1
    assume n: "p \<notin> set (crawledUrls s)"
      and b: "crawlBody lib cd p s =
        s\<lparr> world := w1, results := results s @ [a],
        urlsToCrawl := foldl (offerLink lib p (crawledUrls s @ [p])) (urlsToCrawl s)
                         (filter (\<lambda>link. isInternal link \<and> \<not> isNofollow link) (links a)),
        crawledUrls := crawledUrls s @ [p],
        events := events s @ [Crawling p, Sleep (delayMs cd)] \<rparr>"
    show ?thesis
      unfolding attemptsInv_def b using i d n c0 unfolding attemptsInv_def by auto
  }
qed

lemma crawlLoop_attemptsInv:
  "distinct ps \<Longrightarrow> attemptsInv ps s \<Longrightarrow> attemptsInv [] (crawlLoop lib mp cd ps s)"
proof (induction ps arbitrary: s)
  case Nil
  then show ?case by simp
next
  case (Cons p ps)
  show ?case
  proof (cases "int (length (crawledUrls s)) \<ge> mp")
    case True
    then show ?thesis using attemptsInv_weaken [OF Cons.prems(2), of "[]"] by simp
  next
    case False
    have "attemptsInv ps (crawlBody lib cd p s)"
      using Cons.prems by (rule crawlBody_attemptsInv)
    then show ?thesis using False Cons.IH Cons.prems(1) by simp
  qed
qed

lemma crawlBody_crawled_cases:
  "crawledUrls (crawlBody lib cd p s) = crawledUrls s
   \<or> crawledUrls (crawlBody lib cd p s) = crawledUrls s @ [p]"
  by (rule crawlBody_cases [of p s lib cd]) simp_all

lemma crawlLoop_subseq:
  "\<exists>xs. crawledUrls (crawlLoop lib mp cd ps s) = crawledUrls s @ xs \<and> subseq xs ps"
proof (induction ps arbitrary: s)
  case Nil
  then show ?case by simp
next
  case (Cons p ps)
  show ?case
  proof (cases "int (length (crawledUrls s)) \<ge> mp")
    case True
    then show ?thesis by simp
  next
    case False
    let ?s = "crawlBody lib cd p s"
    obtain xs where xs: "crawledUrls (crawlLoop lib mp cd ps ?s) = crawledUrls ?s @ xs" "subseq xs ps"
      using Cons.IH by blast
    from crawlBody_crawled_cases [of lib cd p s] show ?thesis
    proof
      assume "crawledUrls ?s = crawledUrls s"
      then have "crawledUrls (crawlLoop lib mp cd (p # ps) s) = crawledUrls s @ xs" "subseq xs (p # ps)"
        using xs False by (auto intro: list_emb_Cons)
      then show ?thesis by blast
    next
      assume "crawledUrls ?s = crawledUrls s @ [p]"
      then have "crawledUrls (crawlLoop lib mp cd (p # ps) s) = crawledUrls s @ (p # xs)" "subseq (p # xs) (p # ps)"
        using xs False by simp_all
      then show ?thesis by blast
    qed
  qed
qed

subsection \<open>The events of the loop\<close>

lemma crawlBody_events_mono: "set (events s) \<subseteq> set (events (crawlBody lib cd p s))"
  by (rule crawlBody_cases [of p s lib cd]) auto

lemma crawlLoop_events_mono: "set (events s) \<subseteq> set (events (crawlLoop lib mp cd ps s))"
proof (induction ps arbitrary: s)
  case Nil
  then show ?case by simp
next
  case (Cons p ps)
  have "set (events s) \<subseteq> set (events (crawlBody lib cd p s))"
    by (rule crawlBody_events_mono)
  also have "\<dots> \<subseteq> set (events (crawlLoop lib mp cd ps (crawlBody lib cd p s)))"
    by (rule Cons.IH)
  finally show ?case by simp
qed

lemma crawlLoop_crawled_bounds:
  "set (crawledUrls s) \<subseteq> set (crawledUrls (crawlLoop lib mp cd ps s))"
  "set (crawledUrls (crawlLoop lib mp cd ps s)) \<subseteq> set (crawledUrls s) \<union> set ps"
proof -
  obtain xs where xs: "crawledUrls (crawlLoop lib mp cd ps s) = crawledUrls s @ xs" "subseq xs ps"
    using crawlLoop_subseq by blast
  show "set (crawledUrls s) \<subseteq> set (crawledUrls (crawlLoop lib mp cd ps s))"
    unfolding xs(1) by simp
  have "set xs \<subseteq> set ps" using xs(2) by (auto dest: list_emb_set)
  then show "set (crawledUrls (crawlLoop lib mp cd ps s)) \<subseteq> set (crawledUrls s) \<union> set ps"
    unfolding xs(1) by auto
qed

lemma crawlLoop_toCrawl_mono:
  "set (urlsToCrawl s) \<subseteq> set (urlsToCrawl (crawlLoop lib mp cd ps s))"
proof (induction ps arbitrary: s)
  case Nil
  then show ?case by simp
next
  case (Cons p ps)
  have "set (urlsToCrawl s) \<subseteq> set (urlsToCrawl (crawlBody lib cd p s))"
    by (rule crawlBody_toCrawl_mono)
  also have "\<dots> \<subseteq> set (urlsToCrawl (crawlLoop lib mp cd ps (crawlBody lib cd p s)))"
    by (rule Cons.IH)
  finally show ?case by simp
qed

lemma crawlLoop_toCrawl_distinct:
  "distinct (urlsToCrawl s) \<Longrightarrow> distinct (urlsToCrawl (crawlLoop lib mp cd ps s))"
  by (induction ps arbitrary: s) (simp_all add: crawlBody_toCrawl_distinct)

text \<open>
  The events of the loop: the addresses of a prefix of the queue are attempted in turn,
  each attempt followed by the sleep or by the error line; the prefix is the whole queue
  unless the page limit has been reached.
\<close>

lemma crawlLoop_events:
  assumes "distinct ps" and "set ps \<inter> set (crawledUrls s) = {}"
  shows "\<exists>k. events (crawlLoop lib mp cd ps s)
               = events s @ concat (map (attemptEvents (delayMs cd)
                                           (crawledUrls (crawlLoop lib mp cd ps s))) (take k ps))
             \<and> (k = length ps \<or> mp \<le> int (length (crawledUrls (crawlLoop lib mp cd ps s))))"
  using assms
proof (induction ps arbitrary: s)
  case Nil
  then show ?case by simp
next
  case (Cons p ps)
  show ?case
  proof (cases "int (length (crawledUrls s)) \<ge> mp")
    case True
    then have "events (crawlLoop lib mp cd (p # ps) s)
               = events s @ concat (map (attemptEvents (delayMs cd)
                                           (crawledUrls (crawlLoop lib mp cd (p # ps) s))) (take 0 (p # ps)))
             \<and> (0 = length (p # ps) \<or> mp \<le> int (length (crawledUrls (crawlLoop lib mp cd (p # ps) s))))"
      by simp
    then show ?thesis by blast
  next
    case False
    let ?s = "crawlBody lib cd p s"
    let ?f = "crawlLoop lib mp cd ps ?s"
    have f: "crawlLoop lib mp cd (p # ps) s = ?f" using False by simp
    have pn: "p \<notin> set (crawledUrls s)" and pp: "p \<notin> set ps" and d: "distinct ps"
      using Cons.prems by auto
    have sub: "set (crawledUrls ?s) \<subseteq> insert p (set (crawledUrls s))"
      by (rule crawlBody_crawled_subset)
    have dj: "set ps \<inter> set (crawledUrls ?s) = {}"
      using sub pp Cons.prems(2) by auto
    obtain k where k: "events ?f = events ?s @ concat (map (attemptEvents (delayMs cd) (crawledUrls ?f)) (take k ps))"
      and kk: "k = length ps \<or> mp \<le> int (length (crawledUrls ?f))"
      using Cons.IH [OF d dj] by blast
    have e: "events ?s = events s @ attemptEvents (delayMs cd) (crawledUrls ?f) p"
    proof (rule crawlBody_cases [of p s lib cd])
      assume "p \<in> set (crawledUrls s)"
      with pn show ?thesis by simp
    next
      fix w1
      assume b: "crawlBody lib cd p s = s\<lparr> world := w1, events := events s @ [Crawling p, CrawlError p] \<rparr>"
      have "crawledUrls ?s = crawledUrls s" unfolding b by simp
      then have "p \<notin> set (crawledUrls ?f)"
        using crawlLoop_crawled_bounds(2) [of lib mp cd ps ?s] pn pp by auto
      then show ?thesis unfolding b by (simp add: attemptEvents_def)
    next
      fix a w1
      assume b: "crawlBody lib cd p s =
        s\<lparr> world := w1, results := results s @ [a],
        urlsToCrawl := foldl (offerLink lib p (crawledUrls s @ [p])) (urlsToCrawl s)
                         (filter (\<lambda>link. isInternal link \<and> \<not> isNofollow link) (links a)),
        crawledUrls := crawledUrls s @ [p],
        events := events s @ [Crawling p, Sleep (delayMs cd)] \<rparr>"
      have "p \<in> set (crawledUrls ?s)" unfolding b by simp
      then have "p \<in> set (crawledUrls ?f)"
        using crawlLoop_crawled_bounds(1) [of ?s lib mp cd ps] by auto
      then show ?thesis unfolding b by (simp add: attemptEvents_def)
    qed
    have "events ?f = events s @ concat (map (attemptEvents (delayMs cd) (crawledUrls ?f)) (take (Suc k) (p # ps)))
          \<and> (Suc k = length (p # ps) \<or> mp \<le> int (length (crawledUrls ?f)))"
      using k kk e by simp
    then show ?thesis unfolding f by blast
  qed
qed

lemma sleep_in_attempts:
  "Sleep ms \<in> set (concat (map (attemptEvents d c) xs)) \<Longrightarrow> ms = d"
  by (induction xs) (auto simp: attemptEvents_def split: if_splits)

lemma error_in_attempts:
  "CrawlError u \<in> set (concat (map (attemptEvents d c) xs)) \<longleftrightarrow> u \<in> set xs \<and> u \<notin> set c"
  by (induction xs) (auto simp: attemptEvents_def split: if_splits)

lemma crawling_in_attempts:
  "Crawling u \<in> set (concat (map (attemptEvents d c) xs)) \<longleftrightarrow> u \<in> set xs"
  by (induction xs) (auto simp: attemptEvents_def split: if_splits)

text \<open>Without an error line, the loop crawls the queue in order up to the page limit.\<close>

lemma crawlLoop_no_error:
  assumes "distinct ps" and "set ps \<inter> set (crawledUrls s) = {}"
      and "\<forall>u. CrawlError u \<notin> set (events (crawlLoop lib mp cd ps s))"
  shows "crawledUrls (crawlLoop lib mp cd ps s)
           = crawledUrls s @ take (nat (mp - int (length (crawledUrls s)))) ps"
  using assms
proof (induction ps arbitrary: s)
  case Nil
  then show ?case by simp
next
  case (Cons p ps)
  show ?case
  proof (cases "int (length (crawledUrls s)) \<ge> mp")
    case True
    then show ?thesis by simp
  next
    case False
    let ?s = "crawlBody lib cd p s"
    have f: "crawlLoop lib mp cd (p # ps) s = crawlLoop lib mp cd ps ?s" using False by simp
    have pn: "p \<notin> set (crawledUrls s)" using Cons.prems(2) by auto
    have ne: "CrawlError p \<notin> set (events ?s)"
      using Cons.prems(3) crawlLoop_events_mono [of ?s lib mp cd ps] unfolding f by blast
    have c: "crawledUrls ?s = crawledUrls s @ [p]"
    proof (rule crawlBody_cases [of p s lib cd])
      assume "p \<in> set (crawledUrls s)"
      with pn show ?thesis by simp
    next
      fix w1
      assume "crawlBody lib cd p s = s\<lparr> world := w1, events := events s @ [Crawling p, CrawlError p] \<rparr>"
      with ne show ?thesis by simp
    next
      fix a w1
      assume "crawlBody lib cd p s =
        s\<lparr> world := w1, results := results s @ [a],
        urlsToCrawl := foldl (offerLink lib p (crawledUrls s @ [p])) (urlsToCrawl s)
                         (filter (\<lambda>link. isInternal link \<and> \<not> isNofollow link) (links a)),
        crawledUrls := crawledUrls s @ [p],
        events := events s @ [Crawling p, Sleep (delayMs cd)] \<rparr>"
      then show ?thesis by simp
    qed
    have "crawledUrls (crawlLoop lib mp cd ps ?s)
            = crawledUrls ?s @ take (nat (mp - int (length (crawledUrls ?s)))) ps"
      using Cons.prems c unfolding f by (intro Cons.IH) auto
    moreover have "nat (mp - int (length (crawledUrls s))) = Suc (nat (mp - int (length (crawledUrls ?s))))"
      using False c by simp
    ultimately show ?thesis using False c by simp
  qed
qed

lemma distinct_count_one: "distinct xs \<Longrightarrow> x \<in> set xs \<Longrightarrow> count_list xs x = 1"
  by (induction xs) auto

text \<open>With robots.txt respected, the crawl continues from what \<open>fetchRobotsTxt\<close> returns.\<close>

lemma crawlRun_with_robots:
  assumes "newURL lib (config_url config) None = Some seed"
      and "respectRobotsTxt config \<noteq> Some False"
  shows "crawlRun fuel lib config w
           = crawlFrom fuel lib config (url_origin seed)
               (fst (fetchRobotsTxt lib w (url_origin seed)))
               (snd (fetchRobotsTxt lib w (url_origin seed)))"
proof -
  have "(case respectRobotsTxt config of None \<Rightarrow> True | Some b \<Rightarrow> b)"
    using assms(2) by (cases "respectRobotsTxt config") auto
  then show ?thesis
    using assms(1) by (simp add: crawlRun_def Let_def split: prod.splits)
qed

subsection \<open>The loop over the lines of robots.txt\<close>

text \<open>
  The three prefixes exclude one another, so the order of the branches does not matter
  for the crawl delay: every line with the third prefix assigns it.
\<close>

lemma crawl_delay_prefix_exclusive:
  assumes "startsWith x ''crawl-delay:''"
  shows "\<not> startsWith x ''sitemap:''" and "\<not> startsWith x ''disallow:''"
  using assms by (cases x; simp add: startsWith_def)+

lemma robotsLine_crawlDelay:
  "crawlDelay (robotsLine r l) = (if isCrawlDelayLine l then crawlDelayOfLine l else crawlDelay r)"
  using crawl_delay_prefix_exclusive [of "toLowerCase (trim l)"]
  by (auto simp: robotsLine_def isCrawlDelayLine_def crawlDelayOfLine_def Let_def)

lemma foldl_robotsLine_crawlDelay:
  "crawlDelay (foldl robotsLine r ls) =
     (case filter isCrawlDelayLine ls of [] \<Rightarrow> crawlDelay r | x # xs \<Rightarrow> crawlDelayOfLine (last (x # xs)))"
proof (induction ls rule: rev_induct)
  case Nil
  then show ?case by simp
next
  case (snoc l ls)
  then show ?case
    by (auto simp: robotsLine_crawlDelay split: list.splits)
qed

subsection \<open>Links found while crawling\<close>

text \<open>Only the addresses of the snapshot are ever attempted.\<close>

lemma crawlBody_attempts:
  "Crawling u \<in> set (events (crawlBody lib cd p s)) \<Longrightarrow> Crawling u \<in> set (events s) \<or> u = p"
  by (rule crawlBody_cases [of p s lib cd]) auto

lemma crawlLoop_attempts:
  "Crawling u \<in> set (events (crawlLoop lib mp cd ps s)) \<Longrightarrow>
   Crawling u \<in> set (events s) \<or> u \<in> set ps"
proof (induction ps arbitrary: s)
  case Nil
  then show ?case by simp
next
  case (Cons p ps)
  show ?case
  proof (cases "int (length (crawledUrls s)) \<ge> mp")
    case True
    with Cons.prems show ?thesis by simp
  next
    case False
    with Cons.prems have "Crawling u \<in> set (events (crawlLoop lib mp cd ps (crawlBody lib cd p s)))"
      by simp
    then have "Crawling u \<in> set (events (crawlBody lib cd p s)) \<or> u \<in> set ps"
      by (rule Cons.IH)
    then show ?thesis using crawlBody_attempts [of u lib cd p s] by auto
  qed
qed

lemma crawlRun_attempts_within_snapshot:
  assumes "crawlRun fuel lib config w = Returns s" and "Crawling u \<in> set (events s)"
  shows "u \<in> set (snapshot s)"
proof -
  obtain cd toCrawl w1 where
    s: "s = crawlLoop lib (maxPagesOf config) cd toCrawl (initState w1 toCrawl)"
    using assms(1) by (rule crawlRun_Returns)
  have "snapshot s = toCrawl"
    unfolding s by (simp add: crawlLoop_snapshot initState_def)
  moreover have "Crawling u \<in> set (events (initState w1 toCrawl)) \<or> u \<in> set toCrawl"
    using assms(2) unfolding s by (rule crawlLoop_attempts)
  ultimately show ?thesis by (simp add: initState_def)
qed

text \<open>
  C1 says that a crawl stops only at the page limit or when every address added to the
  frontier has been processed. The loop iterates a copy of \<open>urlsToCrawl\<close> made before
  its first iteration, so an address that a page offers is stored and never dequeued.
  Here the home page links to \<open>/b\<close>, a page that can be analysed; sitemaps and
  robots.txt are switched off and the limit is 100. The crawl ends after one page, with
  \<open>/b\<close> in \<open>urlsToCrawl\<close> and never attempted.
\<close>

theorem discovered_link_never_crawled:
  "crawlRun 5 siteLinks configNoSitemap [] = Returns stateLinks
   \<and> maxPagesOf configNoSitemap = 100
   \<and> length (crawledUrls stateLinks) = 1
   \<and> ''https://example.com/b'' \<in> set (urlsToCrawl stateLinks)
   \<and> Crawling ''https://example.com/b'' \<notin> set (events stateLinks)
   \<and> fst (analyzePage siteLinks (world stateLinks) ''https://example.com/b'')
       = Some (pagePlain ''https://example.com/b'')"
proof -
  have r: "crawlRun 5 siteLinks configNoSitemap [] = Returns stateLinks" by code_simp
  have m: "maxPagesOf configNoSitemap = 100"
    by (simp add: maxPagesOf_def configNoSitemap_def)
  have l: "length (crawledUrls stateLinks) = 1" by (simp add: stateLinks_def)
  have u: "''https://example.com/b'' \<in> set (urlsToCrawl stateLinks)"
    by (simp add: stateLinks_def)
  have e: "Crawling ''https://example.com/b'' \<notin> set (events stateLinks)"
    by (simp add: stateLinks_def)
  have a: "fst (analyzePage siteLinks (world stateLinks) ''https://example.com/b'')
       = Some (pagePlain ''https://example.com/b'')"
    by code_simp
  show ?thesis
    by (intro conjI) (rule r m l u e a)+
qed

subsection \<open>The page budget\<close>

text \<open>
  C2, as the code has it. With a page limit that is not negative, a crawl that returns
  gives at most \<open>maxPages\<close> records, and no two of them have the same address
  string; addresses are compared as strings, as the code has them, without
  normalisation. If moreover the seeded frontier, which is the snapshot that the loop
  iterates, holds more address strings than \<open>maxPages\<close> and no page of the run
  fails, there are exactly \<open>maxPages\<close> records: those of the first \<open>maxPages\<close>
  addresses of the frontier, in the order of insertion.
\<close>

theorem crawlSite_budget:
  assumes "crawlRun fuel lib config w = Returns s" and "0 \<le> maxPagesOf config"
  shows "crawlSite fuel lib config w = Returns (results s)
       \<and> int (length (results s)) \<le> maxPagesOf config
       \<and> distinct (map url (results s))
       \<and> (maxPagesOf config < int (length (snapshot s))
            \<and> (\<forall>u. CrawlError u \<notin> set (events s))
          \<longrightarrow> int (length (results s)) = maxPagesOf config
            \<and> map url (results s) = take (nat (maxPagesOf config)) (snapshot s))"
proof -
  obtain cd toCrawl w1 where d: "distinct toCrawl"
    and s: "s = crawlLoop lib (maxPagesOf config) cd toCrawl (initState w1 toCrawl)"
    using assms(1) by (rule crawlRun_Returns)
  let ?i = "initState w1 toCrawl"
  have ru: "map url (results s) = crawledUrls s"
    unfolding s by (rule crawlLoop_results_urls) (simp add: initState_def)
  have "int (length (crawledUrls s)) \<le> maxPagesOf config"
    unfolding s by (rule crawlLoop_length) (simp add: initState_def assms(2))
  then have 1: "int (length (results s)) \<le> maxPagesOf config"
    using ru by (metis length_map)
  have 2: "distinct (map url (results s))"
    unfolding ru unfolding s by (rule crawlLoop_distinct) (simp add: initState_def)
  have sn: "snapshot s = toCrawl"
    unfolding s by (simp add: crawlLoop_snapshot initState_def)
  have 3: "map url (results s) = take (nat (maxPagesOf config)) (snapshot s)"
    if "\<forall>u. CrawlError u \<notin> set (events s)"
  proof -
    have "crawledUrls s = crawledUrls ?i @ take (nat (maxPagesOf config - int (length (crawledUrls ?i)))) toCrawl"
      unfolding s
    proof (rule crawlLoop_no_error)
      show "distinct toCrawl" by (rule d)
      show "set toCrawl \<inter> set (crawledUrls ?i) = {}" by (simp add: initState_def)
      show "\<forall>u. CrawlError u \<notin> set (events (crawlLoop lib (maxPagesOf config) cd toCrawl ?i))"
        using that unfolding s .
    qed
    then show ?thesis using ru sn by (simp add: initState_def)
  qed
  have 4: "int (length (results s)) = maxPagesOf config"
    if "maxPagesOf config < int (length (snapshot s))"
      and "map url (results s) = take (nat (maxPagesOf config)) (snapshot s)"
  proof -
    have "length (map url (results s)) = min (length (snapshot s)) (nat (maxPagesOf config))"
      unfolding that(2) by simp
    then show ?thesis using that(1) assms(2) by simp
  qed
  have 0: "crawlSite fuel lib config w = Returns (results s)"
    using assms(1) by (rule crawlSite_results)
  from 0 1 2 3 4 show ?thesis by blast
qed

lemma run_whole: "crawlRun 5 siteWhole configTwoPages [] = Returns stateWhole"
  by code_simp

lemma whole_no_error: "\<forall>u. CrawlError u \<notin> set (events stateWhole)"
  by (simp add: stateWhole_def)

theorem crawlSite_budget_witness:
  "crawlRun 5 siteWhole configTwoPages [] = Returns stateWhole
   \<and> 0 \<le> maxPagesOf configTwoPages
   \<and> crawlSite 5 siteWhole configTwoPages [] = Returns (results stateWhole)
   \<and> int (length (results stateWhole)) \<le> maxPagesOf configTwoPages
   \<and> distinct (map url (results stateWhole))
   \<and> maxPagesOf configTwoPages < int (length (snapshot stateWhole))
   \<and> CrawlError ''https://example.com/p1'' \<notin> set (events stateWhole)
   \<and> int (length (results stateWhole)) = maxPagesOf configTwoPages
   \<and> map url (results stateWhole) = [''https://example.com/'', ''https://example.com/p1'']"
proof -
  have m: "0 \<le> maxPagesOf configTwoPages"
    by (simp add: maxPagesOf_def configTwoPages_def)
  have t: "take (nat (maxPagesOf configTwoPages)) (snapshot stateWhole)
             = [''https://example.com/'', ''https://example.com/p1'']"
    by code_simp
  have l: "maxPagesOf configTwoPages < int (length (snapshot stateWhole))"
    by code_simp
  note b = crawlSite_budget [OF run_whole m]
  note b4 = b [THEN conjunct2, THEN conjunct2, THEN conjunct2, rule_format, OF conjI, OF l whole_no_error]
  show ?thesis
    by (intro conjI)
       (rule run_whole m l b [THEN conjunct1] b [THEN conjunct2, THEN conjunct1]
             b [THEN conjunct2, THEN conjunct2, THEN conjunct1]
             whole_no_error [rule_format] b4 [THEN conjunct1] b4 [THEN conjunct2, unfolded t])+
qed

text \<open>
  The seed is given without the final slash and the sitemap lists the home page with
  it: both strings are crawled, and both are the same address for the \<open>URL\<close>
  class. With a page limit of \<open>-1\<close> the loop stops at once, and the empty result is
  longer than the limit.
\<close>

theorem same_address_crawled_twice:
  "crawlSite 5 siteTwice configNoSlash []
     = Returns [pagePlain ''https://example.com'', pagePlain ''https://example.com/'']
   \<and> newURL siteTwice ''https://example.com'' None = Some (onExample ''/'')
   \<and> newURL siteTwice ''https://example.com/'' None = Some (onExample ''/'')
   \<and> crawlSite 5 siteWhole configMinusOne [] = Returns []
   \<and> maxPagesOf configMinusOne = - 1"
proof -
  have a: "crawlSite 5 siteTwice configNoSlash []
     = Returns [pagePlain ''https://example.com'', pagePlain ''https://example.com/'']"
    by code_simp
  have b: "newURL siteTwice ''https://example.com'' None = Some (onExample ''/'')"
    by code_simp
  have c: "newURL siteTwice ''https://example.com/'' None = Some (onExample ''/'')"
    by code_simp
  have d: "crawlSite 5 siteWhole configMinusOne [] = Returns []"
    by code_simp
  have e: "maxPagesOf configMinusOne = - 1"
    by (simp add: maxPagesOf_def configMinusOne_def)
  show ?thesis
    by (intro conjI) (rule a b c d e)+
qed

subsection \<open>The frontier\<close>

text \<open>
  C3, as the code has it. \<open>urlsToCrawl\<close> is never shrunk, so it is not disjoint from
  \<open>crawledUrls\<close>: it contains it. What is disjoint from \<open>crawledUrls\<close>, at the head
  of every iteration and at the exit of the loop, is the part of the snapshot still to
  be iterated. An address that an iteration adds to \<open>urlsToCrawl\<close> was in neither set.
\<close>

theorem frontier_invariant:
  assumes "seedFrontier fuel lib config baseUrl robotsTxt w = Some (toCrawl, w1)"
      and "(rest, s) \<in> set (loopStates lib mp cd toCrawl (initState w1 toCrawl))"
  shows "set rest \<inter> set (crawledUrls s) = {}
       \<and> set (crawledUrls s) \<subseteq> set (urlsToCrawl s)
       \<and> (\<forall>p u. u \<in> set (urlsToCrawl (crawlBody lib cd p s)) \<and> u \<notin> set (urlsToCrawl s)
                \<longrightarrow> u \<notin> set (crawledUrls (crawlBody lib cd p s)))"
proof -
  have d: "distinct toCrawl" using assms(1) by (rule seedFrontier_distinct)
  have "set rest \<inter> set (crawledUrls s) = {} \<and> set (crawledUrls s) \<subseteq> set (urlsToCrawl s)
         \<and> distinct (urlsToCrawl s)"
    by (rule loopStates_inv [OF assms(2) d]) (simp_all add: initState_def d)
  then show ?thesis using crawlBody_added_not_crawled by blast
qed

text \<open>
  After the first iteration of a crawl of the broken site, the home page is in both
  \<open>urlsToCrawl\<close> and \<open>crawledUrls\<close>.
\<close>

lemma seed_broken:
  "seedFrontier 5 siteBroken configTwoPages ''https://example.com'' emptyRobots []
     = Some (fourUrls, [''https://example.com/sitemap.xml''])"
  by code_simp

lemma states_broken_1:
  "loopStates siteBroken 2 None fourUrls (initState [''https://example.com/sitemap.xml''] fourUrls) ! 1
     = ([''https://example.com/p1'', ''https://example.com/p2'', ''https://example.com/p3''],
        \<lparr> world = [''https://example.com/sitemap.xml'', ''https://example.com/''],
          results = [pagePlain ''https://example.com/''],
          urlsToCrawl = fourUrls,
          crawledUrls = [''https://example.com/''],
          snapshot = fourUrls,
          events = [Crawling ''https://example.com/'', Sleep 1000] \<rparr>)"
  by code_simp

lemma ne_empty_witness: "x \<in> A \<Longrightarrow> A \<noteq> {}"
  by blast

theorem pending_visited_overlap:
  "seedFrontier 5 siteBroken configTwoPages ''https://example.com'' emptyRobots []
     = Some (fourUrls, [''https://example.com/sitemap.xml''])
   \<and> crawledUrls (snd (loopStates siteBroken 2 None fourUrls
                          (initState [''https://example.com/sitemap.xml''] fourUrls) ! 1))
     = [''https://example.com/'']
   \<and> urlsToCrawl (snd (loopStates siteBroken 2 None fourUrls
                          (initState [''https://example.com/sitemap.xml''] fourUrls) ! 1))
     = [''https://example.com/'', ''https://example.com/p1'',
        ''https://example.com/p2'', ''https://example.com/p3'']
   \<and> set (urlsToCrawl (snd (loopStates siteBroken 2 None fourUrls
                          (initState [''https://example.com/sitemap.xml''] fourUrls) ! 1)))
       \<inter> set (crawledUrls (snd (loopStates siteBroken 2 None fourUrls
                          (initState [''https://example.com/sitemap.xml''] fourUrls) ! 1)))
     \<noteq> {}"
proof -
  let ?s = "snd (loopStates siteBroken 2 None fourUrls
                   (initState [''https://example.com/sitemap.xml''] fourUrls) ! 1)"
  have c: "crawledUrls ?s = [''https://example.com/'']"
    unfolding states_broken_1 by simp
  have u: "urlsToCrawl ?s = [''https://example.com/'', ''https://example.com/p1'',
        ''https://example.com/p2'', ''https://example.com/p3'']"
    unfolding states_broken_1 by (simp add: fourUrls_def)
  have "''https://example.com/'' \<in> set (urlsToCrawl ?s) \<inter> set (crawledUrls ?s)"
    unfolding c u by simp
  then have n: "set (urlsToCrawl ?s) \<inter> set (crawledUrls ?s) \<noteq> {}"
    by (rule ne_empty_witness)
  show ?thesis
    by (intro conjI) (rule seed_broken c u n)+
qed

text \<open>
  The state after the home page of the linked site: one page is visited, three addresses
  remain, and the iteration of \<open>/p1\<close> adds \<open>/b\<close>.
\<close>

lemma seed_linked:
  "seedFrontier 5 siteLinked configTwoPages ''https://example.com'' emptyRobots []
     = Some (fourUrls, [''https://example.com/sitemap.xml''])"
  by code_simp

lemma states_linked_1:
  "loopStates siteLinked 2 None fourUrls (initState [''https://example.com/sitemap.xml''] fourUrls) ! 1
     = ([''https://example.com/p1'', ''https://example.com/p2'', ''https://example.com/p3''],
        stateAfterHome)"
  by code_simp

lemma states_linked_length:
  "1 < length (loopStates siteLinked 2 None fourUrls
                 (initState [''https://example.com/sitemap.xml''] fourUrls))"
  by code_simp

lemma body_linked_toCrawl:
  "urlsToCrawl (crawlBody siteLinked None ''https://example.com/p1'' stateAfterHome)
     = fourUrls @ [''https://example.com/b'']"
  by code_simp

lemma body_linked_crawled:
  "crawledUrls (crawlBody siteLinked None ''https://example.com/p1'' stateAfterHome)
     = [''https://example.com/'', ''https://example.com/p1'']"
  by code_simp

theorem frontier_invariant_witness:
  "seedFrontier 5 siteLinked configTwoPages ''https://example.com'' emptyRobots []
     = Some (fourUrls, [''https://example.com/sitemap.xml''])
   \<and> ([''https://example.com/p1'', ''https://example.com/p2'', ''https://example.com/p3''],
        stateAfterHome)
       \<in> set (loopStates siteLinked 2 None fourUrls
                 (initState [''https://example.com/sitemap.xml''] fourUrls))
   \<and> crawledUrls stateAfterHome = [''https://example.com/'']
   \<and> set [''https://example.com/p1'', ''https://example.com/p2'', ''https://example.com/p3'']
         \<inter> set (crawledUrls stateAfterHome) = {}
   \<and> set (crawledUrls stateAfterHome) \<subseteq> set (urlsToCrawl stateAfterHome)
   \<and> ''https://example.com/b''
       \<in> set (urlsToCrawl (crawlBody siteLinked None ''https://example.com/p1'' stateAfterHome))
   \<and> ''https://example.com/b'' \<notin> set (urlsToCrawl stateAfterHome)
   \<and> ''https://example.com/b''
       \<notin> set (crawledUrls (crawlBody siteLinked None ''https://example.com/p1'' stateAfterHome))
   \<and> crawledUrls (crawlBody siteLinked None ''https://example.com/p1'' stateAfterHome)
       = [''https://example.com/'', ''https://example.com/p1'']"
proof -
  have m: "([''https://example.com/p1'', ''https://example.com/p2'', ''https://example.com/p3''],
        stateAfterHome)
       \<in> set (loopStates siteLinked 2 None fourUrls
                 (initState [''https://example.com/sitemap.xml''] fourUrls))"
    using nth_mem [OF states_linked_length] unfolding states_linked_1 .
  have c: "crawledUrls stateAfterHome = [''https://example.com/'']"
    by (simp add: stateAfterHome_def)
  have a: "''https://example.com/b''
       \<in> set (urlsToCrawl (crawlBody siteLinked None ''https://example.com/p1'' stateAfterHome))"
    unfolding body_linked_toCrawl by simp
  have b: "''https://example.com/b'' \<notin> set (urlsToCrawl stateAfterHome)"
    by (simp add: stateAfterHome_def fourUrls_def)
  note fi = frontier_invariant [OF seed_linked m]
  note c1 = fi [THEN conjunct1]
  note c2 = fi [THEN conjunct2, THEN conjunct1]
  note c3 = fi [THEN conjunct2, THEN conjunct2, rule_format, OF conjI, OF a b]
  show ?thesis
    by (intro conjI) (rule seed_linked m c c1 c2 a b c3 body_linked_crawled)+
qed

subsection \<open>A page that fails\<close>

text \<open>
  C4, as the code has it. A page whose analysis throws is not added to \<open>crawledUrls\<close>,
  so it does not count towards the page limit. It is attempted once all the same and
  stays in \<open>urlsToCrawl\<close> once, never queued again; it is in no record; every
  attempted page that did not throw has its record; the records keep the order that
  their addresses have in the snapshot; and the failure does not end the crawl: unless
  the page limit is reached, every address of the snapshot is attempted.
\<close>

theorem failed_page_isolated:
  assumes "crawlRun fuel lib config w = Returns s"
  shows "crawlSite fuel lib config w = Returns (results s)
       \<and> (\<forall>u. CrawlError u \<in> set (events s) \<longrightarrow>
              u \<notin> set (crawledUrls s) \<and> u \<notin> set (map url (results s))
            \<and> count_list (events s) (Crawling u) = 1
            \<and> count_list (urlsToCrawl s) u = 1)
       \<and> (\<forall>u. Crawling u \<in> set (events s) \<longrightarrow>
              CrawlError u \<in> set (events s) \<or> u \<in> set (map url (results s)))
       \<and> subseq (map url (results s)) (snapshot s)
       \<and> (int (length (crawledUrls s)) < maxPagesOf config \<longrightarrow>
              (\<forall>u\<in>set (snapshot s). Crawling u \<in> set (events s)))"
proof -
  obtain cd toCrawl w1 where d: "distinct toCrawl"
    and s: "s = crawlLoop lib (maxPagesOf config) cd toCrawl (initState w1 toCrawl)"
    using assms(1) by (rule crawlRun_Returns)
  let ?i = "initState w1 toCrawl"
  have ru: "map url (results s) = crawledUrls s"
    unfolding s by (rule crawlLoop_results_urls) (simp add: initState_def)
  have sn: "snapshot s = toCrawl"
    unfolding s by (simp add: crawlLoop_snapshot initState_def)
  have "attemptsInv toCrawl ?i"
    by (simp add: attemptsInv_def initState_def)
  then have inv: "attemptsInv [] s"
    unfolding s using d by (intro crawlLoop_attemptsInv)
  have dq: "distinct (urlsToCrawl s)"
    unfolding s by (rule crawlLoop_toCrawl_distinct) (simp add: initState_def d)
  have "set (urlsToCrawl ?i) \<subseteq> set (urlsToCrawl s)"
    unfolding s by (rule crawlLoop_toCrawl_mono)
  then have sq: "set (snapshot s) \<subseteq> set (urlsToCrawl s)"
    unfolding sn by (simp add: initState_def)
  have one: "count_list (events s) (Crawling u) = 1 \<and> count_list (urlsToCrawl s) u = 1"
    if "CrawlError u \<in> set (events s)" for u
  proof -
    have c: "Crawling u \<in> set (events s)" using inv that unfolding attemptsInv_def by blast
    then have "count_list (events s) (Crawling u) \<noteq> 0" by (simp add: count_list_0_iff)
    moreover have "count_list (events s) (Crawling u) \<le> 1" using inv unfolding attemptsInv_def by blast
    ultimately have a: "count_list (events s) (Crawling u) = 1" by linarith
    have "u \<in> set (snapshot s)" using assms c by (rule crawlRun_attempts_within_snapshot)
    then have "u \<in> set (urlsToCrawl s)" using sq by blast
    then have "count_list (urlsToCrawl s) u = 1"
      using dq by (simp add: distinct_count_one)
    with a show ?thesis by simp
  qed
  obtain xs where "crawledUrls s = crawledUrls ?i @ xs" "subseq xs toCrawl"
    unfolding s using crawlLoop_subseq by blast
  then have sub: "subseq (map url (results s)) (snapshot s)"
    using ru sn by (simp add: initState_def)
  have goes_on: "\<forall>u\<in>set (snapshot s). Crawling u \<in> set (events s)"
    if "int (length (crawledUrls s)) < maxPagesOf config"
  proof -
    obtain k where k: "events s = events ?i @ concat (map (attemptEvents (delayMs cd) (crawledUrls s)) (take k toCrawl))"
      and kk: "k = length toCrawl \<or> maxPagesOf config \<le> int (length (crawledUrls s))"
      unfolding s using crawlLoop_events [of toCrawl ?i lib "maxPagesOf config" cd] d
      by (auto simp: initState_def)
    from kk that have "k = length toCrawl" by simp
    then have "events s = concat (map (attemptEvents (delayMs cd) (crawledUrls s)) toCrawl)"
      using k by (simp add: initState_def)
    then have "Crawling u \<in> set (events s) \<longleftrightarrow> u \<in> set toCrawl" for u
      by (simp only: crawling_in_attempts)
    then show ?thesis unfolding sn by blast
  qed
  have m1: "\<forall>u. CrawlError u \<in> set (events s) \<longrightarrow>
              u \<notin> set (crawledUrls s) \<and> u \<notin> set (map url (results s))
            \<and> count_list (events s) (Crawling u) = 1
            \<and> count_list (urlsToCrawl s) u = 1"
    using inv one unfolding ru attemptsInv_def by blast
  have m2: "\<forall>u. Crawling u \<in> set (events s) \<longrightarrow>
              CrawlError u \<in> set (events s) \<or> u \<in> set (map url (results s))"
    using inv unfolding ru attemptsInv_def by blast
  have g: "int (length (crawledUrls s)) < maxPagesOf config \<longrightarrow>
              (\<forall>u\<in>set (snapshot s). Crawling u \<in> set (events s))"
    using goes_on by (rule impI)
  show ?thesis
    by (rule conjI [OF crawlSite_results [OF assms] conjI [OF m1 conjI [OF m2 conjI [OF sub g]]]])
qed

text \<open>
  On the broken site with a limit of two pages, \<open>/p1\<close> fails and is not in
  \<open>crawledUrls\<close>; had it been marked as visited, the limit would have been reached
  before \<open>/p2\<close>, which is fetched and returned.
\<close>

lemma run_broken: "crawlRun 5 siteBroken configTwoPages [] = Returns stateBroken"
  by code_simp

theorem failed_page_not_marked_visited:
  "crawlRun 5 siteBroken configTwoPages [] = Returns stateBroken
   \<and> CrawlError ''https://example.com/p1'' \<in> set (events stateBroken)
   \<and> ''https://example.com/p1'' \<notin> set (crawledUrls stateBroken)
   \<and> maxPagesOf configTwoPages = 2
   \<and> map url (results stateBroken) = [''https://example.com/'', ''https://example.com/p2'']"
proof -
  have e: "CrawlError ''https://example.com/p1'' \<in> set (events stateBroken)"
    by (simp add: stateBroken_def)
  have c: "''https://example.com/p1'' \<notin> set (crawledUrls stateBroken)"
    by (simp add: stateBroken_def)
  have m: "maxPagesOf configTwoPages = 2"
    by (simp add: maxPagesOf_def configTwoPages_def)
  have r: "map url (results stateBroken) = [''https://example.com/'', ''https://example.com/p2'']"
    by (simp add: stateBroken_def pagePlain_def)
  show ?thesis
    by (intro conjI) (rule run_broken e c m r)+
qed

text \<open>The same site without a limit: the crawl goes on to \<open>/p2\<close> and \<open>/p3\<close>.\<close>

lemma run_broken_all: "crawlRun 5 siteBroken configNoLimit [] = Returns stateBrokenAll"
  by code_simp

theorem failed_page_isolated_witness:
  "crawlRun 5 siteBroken configNoLimit [] = Returns stateBrokenAll
   \<and> crawlSite 5 siteBroken configNoLimit [] = Returns (results stateBrokenAll)
   \<and> CrawlError ''https://example.com/p1'' \<in> set (events stateBrokenAll)
   \<and> ''https://example.com/p1'' \<notin> set (crawledUrls stateBrokenAll)
   \<and> ''https://example.com/p1'' \<notin> set (map url (results stateBrokenAll))
   \<and> count_list (events stateBrokenAll) (Crawling ''https://example.com/p1'') = 1
   \<and> count_list (urlsToCrawl stateBrokenAll) ''https://example.com/p1'' = 1
   \<and> Crawling ''https://example.com/p2'' \<in> set (events stateBrokenAll)
   \<and> CrawlError ''https://example.com/p2'' \<notin> set (events stateBrokenAll)
   \<and> ''https://example.com/p2'' \<in> set (map url (results stateBrokenAll))
   \<and> subseq (map url (results stateBrokenAll)) (snapshot stateBrokenAll)
   \<and> int (length (crawledUrls stateBrokenAll)) < maxPagesOf configNoLimit
   \<and> ''https://example.com/p3'' \<in> set (snapshot stateBrokenAll)
   \<and> Crawling ''https://example.com/p3'' \<in> set (events stateBrokenAll)
   \<and> map url (results stateBrokenAll)
       = [''https://example.com/'', ''https://example.com/p2'', ''https://example.com/p3'']"
proof -
  note fi = failed_page_isolated [OF run_broken_all]
  note r0 = fi [THEN conjunct1]
  note f1 = fi [THEN conjunct2, THEN conjunct1]
  note f2 = fi [THEN conjunct2, THEN conjunct2, THEN conjunct1]
  note f3 = fi [THEN conjunct2, THEN conjunct2, THEN conjunct2, THEN conjunct1]
  note f4 = fi [THEN conjunct2, THEN conjunct2, THEN conjunct2, THEN conjunct2]
  have e: "CrawlError ''https://example.com/p1'' \<in> set (events stateBrokenAll)"
    by (simp add: stateBrokenAll_def)
  have a: "Crawling ''https://example.com/p2'' \<in> set (events stateBrokenAll)"
    by (simp add: stateBrokenAll_def)
  have n: "CrawlError ''https://example.com/p2'' \<notin> set (events stateBrokenAll)"
    by (simp add: stateBrokenAll_def)
  have l: "int (length (crawledUrls stateBrokenAll)) < maxPagesOf configNoLimit"
    by (simp add: stateBrokenAll_def maxPagesOf_def configNoLimit_def)
  have p3: "''https://example.com/p3'' \<in> set (snapshot stateBrokenAll)"
    by (simp add: stateBrokenAll_def fourUrls_def)
  have rs: "map url (results stateBrokenAll)
       = [''https://example.com/'', ''https://example.com/p2'', ''https://example.com/p3'']"
    by (simp add: stateBrokenAll_def pagePlain_def)
  note c1 = f1 [rule_format, OF e]
  note c2 = f2 [rule_format, OF a]
  from c2 n have p2: "''https://example.com/p2'' \<in> set (map url (results stateBrokenAll))"
    by blast
  note c4 = f4 [rule_format, OF l p3]
  show ?thesis
    by (intro conjI)
       (rule run_broken_all r0 e a n p2 f3 l p3 c4 rs c1 [THEN conjunct1]
             c1 [THEN conjunct2, THEN conjunct1]
             c1 [THEN conjunct2, THEN conjunct2, THEN conjunct1]
             c1 [THEN conjunct2, THEN conjunct2, THEN conjunct2])+
qed

subsection \<open>Politeness\<close>

text \<open>
  C5 says that one sleep follows every processed address, also one whose analysis
  fails. The sleep is inside the \<open>try\<close> block, after the analysis: a failure jumps
  over it. Here robots.txt asks for two seconds and \<open>/p1\<close> fails: the attempt of
  \<open>/p2\<close> follows the error line of \<open>/p1\<close> with no sleep between them.
\<close>

theorem no_sleep_after_failed_page:
  "crawlRun 5 sitePolite configDefault [] = Returns statePolite
   \<and> events statePolite =
       [Crawling ''https://example.com/'', Sleep 2000,
        Crawling ''https://example.com/p1'', CrawlError ''https://example.com/p1'',
        Crawling ''https://example.com/p2'', Sleep 2000,
        Crawling ''https://example.com/p3'', Sleep 2000]"
proof -
  have r: "crawlRun 5 sitePolite configDefault [] = Returns statePolite" by code_simp
  have e: "events statePolite =
       [Crawling ''https://example.com/'', Sleep 2000,
        Crawling ''https://example.com/p1'', CrawlError ''https://example.com/p1'',
        Crawling ''https://example.com/p2'', Sleep 2000,
        Crawling ''https://example.com/p3'', Sleep 2000]"
    by (simp add: statePolite_def)
  show ?thesis
    by (intro conjI) (rule r e)+
qed

subsection \<open>Sitemap documents\<close>

text \<open>
  C6 says that the page entries of a document with an index entry are dropped and
  never resolved as sitemaps. The loop over the children runs over both lists. Here the
  document has the index entry \<open>sm1.xml\<close> and the page entry \<open>feed.xml\<close>:
  \<open>feed.xml\<close> is fetched as a sitemap and its entry \<open>/p3\<close> is returned, after the
  \<open>/p2\<close> of \<open>sm1.xml\<close>.
\<close>

theorem page_entries_resolved_as_sitemaps:
  "sitemapLocs (cheerio_load siteMixed True xmlMixed) = [''https://example.com/sm1.xml'']
   \<and> urlLocs (cheerio_load siteMixed True xmlMixed) = [''https://example.com/feed.xml'']
   \<and> fetchSitemap 2 siteMixed [] ''https://example.com/sitemap.xml''
       = Some ([''https://example.com/p2'', ''https://example.com/p3''],
               [''https://example.com/sitemap.xml'', ''https://example.com/sm1.xml'',
                ''https://example.com/feed.xml''])
   \<and> fetchSitemap 1 siteMixed [''https://example.com/sitemap.xml''] ''https://example.com/sm1.xml''
       = Some ([''https://example.com/p2''],
               [''https://example.com/sitemap.xml'', ''https://example.com/sm1.xml''])"
proof -
  have a: "sitemapLocs (cheerio_load siteMixed True xmlMixed) = [''https://example.com/sm1.xml'']"
    by code_simp
  have b: "urlLocs (cheerio_load siteMixed True xmlMixed) = [''https://example.com/feed.xml'']"
    by code_simp
  have c: "fetchSitemap 2 siteMixed [] ''https://example.com/sitemap.xml''
       = Some ([''https://example.com/p2'', ''https://example.com/p3''],
               [''https://example.com/sitemap.xml'', ''https://example.com/sm1.xml'',
                ''https://example.com/feed.xml''])"
    by code_simp
  have d: "fetchSitemap 1 siteMixed [''https://example.com/sitemap.xml''] ''https://example.com/sm1.xml''
       = Some ([''https://example.com/p2''],
               [''https://example.com/sitemap.xml'', ''https://example.com/sm1.xml''])"
    by code_simp
  show ?thesis
    by (intro conjI) (rule a b c d)+
qed

subsection \<open>The crawl delay of robots.txt\<close>

lemma robotsLines_crawlDelay:
  "crawlDelay (robotsLines ls) =
     (case filter isCrawlDelayLine ls of [] \<Rightarrow> None | x # xs \<Rightarrow> crawlDelayOfLine (last (x # xs)))"
  by (simp add: robotsLines_def foldl_robotsLine_crawlDelay emptyRobots_def split: list.splits)

lemma fetchRobotsTxt_fetched:
  assumes "newURL lib ''/robots.txt'' (Some baseUrl) = Some robotsUrl"
      and "fetchPage lib w (url_href robotsUrl) = (Some f, w1)"
  shows "fetchRobotsTxt lib w baseUrl = (robotsLines (split_nl (html f)), w1)"
  using assms by (simp add: fetchRobotsTxt_def)

text \<open>
  C7, as the code has it. When robots.txt is fetched, the crawl delay is decided by the
  last \<open>crawl-delay:\<close> line alone: it is the number that \<open>parseInt\<close> reads there
  unless that is NaN or zero, which both give \<open>null\<close>. A later line without a number
  resets an earlier value.
\<close>

theorem crawl_delay_last_line_decides:
  assumes "newURL lib ''/robots.txt'' (Some baseUrl) = Some robotsUrl"
      and "fetchPage lib w (url_href robotsUrl) = (Some f, w1)"
  shows "crawlDelay (fst (fetchRobotsTxt lib w baseUrl)) =
           (case filter isCrawlDelayLine (split_nl (html f)) of
              [] \<Rightarrow> None
            | x # xs \<Rightarrow> orNull (parseInt (trim (substring (trim (last (x # xs))) 12))))"
  unfolding fetchRobotsTxt_fetched [OF assms]
  by (simp add: robotsLines_crawlDelay crawlDelayOfLine_def split: list.splits)

lemma robots_url:
  "newURL (siteRobots body) ''/robots.txt'' (Some ''https://example.com'')
     = Some (onExample ''/robots.txt'')"
  by code_simp

lemma robots_fetch:
  "fetchPage (siteRobots body) w (url_href (onExample ''/robots.txt''))
     = (Some \<lparr> html = body, statusCode = 200, loadTime = 0 \<rparr>, w @ [''https://example.com/robots.txt''])"
  by (simp add: siteRobots_def demoSite_def tableLib_def onExample_def mkURL_def)

theorem invalid_crawl_delay_resets:
  "fetchRobotsTxt (siteRobots ''Crawl-delay: 5'') [] ''https://example.com''
     = (\<lparr> sitemaps = [], disallowed = [], crawlDelay = Some 5 \<rparr>, [''https://example.com/robots.txt''])
   \<and> fetchRobotsTxt (siteRobots ''Crawl-delay: 5\<newline>Crawl-delay: abc'') [] ''https://example.com''
     = (\<lparr> sitemaps = [], disallowed = [], crawlDelay = None \<rparr>, [''https://example.com/robots.txt''])"
proof -
  have a: "fetchRobotsTxt (siteRobots ''Crawl-delay: 5'') [] ''https://example.com''
     = (\<lparr> sitemaps = [], disallowed = [], crawlDelay = Some 5 \<rparr>, [''https://example.com/robots.txt''])"
    by code_simp
  have b: "fetchRobotsTxt (siteRobots ''Crawl-delay: 5\<newline>Crawl-delay: abc'') [] ''https://example.com''
     = (\<lparr> sitemaps = [], disallowed = [], crawlDelay = None \<rparr>, [''https://example.com/robots.txt''])"
    by code_simp
  show ?thesis by (intro conjI) (rule a b)+
qed

theorem crawl_delay_last_line_decides_witness:
  "newURL (siteRobots ''Disallow: /p2\<newline>crawl-delay: abc\<newline>Crawl-Delay: 7 '')
          ''/robots.txt'' (Some ''https://example.com'')
     = Some (onExample ''/robots.txt'')
   \<and> fetchPage (siteRobots ''Disallow: /p2\<newline>crawl-delay: abc\<newline>Crawl-Delay: 7 '') []
          (url_href (onExample ''/robots.txt''))
     = (Some \<lparr> html = ''Disallow: /p2\<newline>crawl-delay: abc\<newline>Crawl-Delay: 7 '',
                statusCode = 200, loadTime = 0 \<rparr>,
        [] @ [''https://example.com/robots.txt''])
   \<and> crawlDelay (fst (fetchRobotsTxt
          (siteRobots ''Disallow: /p2\<newline>crawl-delay: abc\<newline>Crawl-Delay: 7 '') []
          ''https://example.com'')) = Some 7"
proof -
  let ?body = "''Disallow: /p2\<newline>crawl-delay: abc\<newline>Crawl-Delay: 7 ''"
  have v: "(case filter isCrawlDelayLine (split_nl ?body) of
              [] \<Rightarrow> None
            | x # xs \<Rightarrow> orNull (parseInt (trim (substring (trim (last (x # xs))) 12)))) = Some 7"
    by code_simp
  have "crawlDelay (fst (fetchRobotsTxt (siteRobots ?body) [] ''https://example.com'')) = Some 7"
    using crawl_delay_last_line_decides [OF robots_url robots_fetch, of ?body "[]"] v by simp
  then show ?thesis
    by (intro conjI) (rule robots_url robots_fetch)+
qed

text \<open>
  C9. In a crawl that respects robots.txt, when the last \<open>crawl-delay:\<close> line of
  the fetched robots.txt reads as zero, \<open>fetchRobotsTxt\<close> returns no crawl delay and
  the delay of an iteration is 1000 milliseconds. The events of the crawl are then the
  attempts of a prefix of the snapshot, the whole of it unless the page limit is
  reached, each crawled page followed by a sleep of 1000 milliseconds; no sleep of the
  crawl has another duration.
\<close>

theorem zero_crawl_delay_gives_default:
  assumes "newURL lib (config_url config) None = Some seed"
      and "respectRobotsTxt config \<noteq> Some False"
      and "newURL lib ''/robots.txt'' (Some (url_origin seed)) = Some robotsUrl"
      and "fetchPage lib w (url_href robotsUrl) = (Some f, w1)"
      and "filter isCrawlDelayLine (split_nl (html f)) \<noteq> []"
      and "parseInt (trim (substring (trim (last (filter isCrawlDelayLine (split_nl (html f))))) 12))
             = Some 0"
      and "crawlRun fuel lib config w = Returns s"
  shows "crawlDelay (fst (fetchRobotsTxt lib w (url_origin seed))) = None
       \<and> delayMs (crawlDelay (fst (fetchRobotsTxt lib w (url_origin seed)))) = 1000
       \<and> (\<exists>k. events s = concat (map (attemptEvents 1000 (crawledUrls s)) (take k (snapshot s)))
              \<and> (k = length (snapshot s) \<or> maxPagesOf config \<le> int (length (crawledUrls s))))
       \<and> (\<forall>ms. Sleep ms \<in> set (events s) \<longrightarrow> ms = 1000)"
proof -
  let ?r = "fst (fetchRobotsTxt lib w (url_origin seed))"
  obtain x xs where e: "filter isCrawlDelayLine (split_nl (html f)) = x # xs"
    using assms(5) by (cases "filter isCrawlDelayLine (split_nl (html f))") auto
  have n: "crawlDelay ?r = None"
    unfolding fetchRobotsTxt_fetched [OF assms(3,4)]
    using assms(6) [unfolded e]
    by (simp add: robotsLines_crawlDelay crawlDelayOfLine_def e orNull_def)
  have dm: "delayMs None = 1000" by (simp add: delayMs_def)
  from assms(7) obtain toCrawl w2 where
    sf: "seedFrontier fuel lib config (url_origin seed) ?r (snd (fetchRobotsTxt lib w (url_origin seed)))
           = Some (toCrawl, w2)"
    and s: "s = crawlLoop lib (maxPagesOf config) None toCrawl (initState w2 toCrawl)"
    unfolding crawlRun_with_robots [OF assms(1,2)]
    by (auto simp: crawlFrom_def n split: option.splits prod.splits)
  have d: "distinct toCrawl" using sf by (rule seedFrontier_distinct)
  have sn: "snapshot s = toCrawl"
    unfolding s by (simp add: crawlLoop_snapshot initState_def)
  obtain k where k: "events s = concat (map (attemptEvents 1000 (crawledUrls s)) (take k (snapshot s)))"
    and kk: "k = length (snapshot s) \<or> maxPagesOf config \<le> int (length (crawledUrls s))"
    unfolding sn unfolding s
    using crawlLoop_events [of toCrawl "initState w2 toCrawl" lib "maxPagesOf config" None] d
    by (auto simp: initState_def dm)
  have sl: "ms = 1000" if "Sleep ms \<in> set (events s)" for ms
    using that unfolding k by (rule sleep_in_attempts)
  have ex: "\<exists>k. events s = concat (map (attemptEvents 1000 (crawledUrls s)) (take k (snapshot s)))
              \<and> (k = length (snapshot s) \<or> maxPagesOf config \<le> int (length (crawledUrls s)))"
    using k kk by blast
  have al: "\<forall>ms. Sleep ms \<in> set (events s) \<longrightarrow> ms = 1000"
    using sl by blast
  have dn: "delayMs (crawlDelay ?r) = 1000"
    unfolding n by (rule dm)
  show ?thesis
    by (rule conjI [OF n conjI [OF dn conjI [OF ex al]]])
qed

lemma run_delay_zero: "crawlRun 5 siteDelayZero configDefault [] = Returns stateDelayZero"
  by code_simp

theorem zero_crawl_delay_gives_default_witness:
  "newURL siteDelayZero (config_url configDefault) None = Some (onExample ''/'')
   \<and> respectRobotsTxt configDefault \<noteq> Some False
   \<and> newURL siteDelayZero ''/robots.txt'' (Some (url_origin (onExample ''/'')))
       = Some (onExample ''/robots.txt'')
   \<and> fetchPage siteDelayZero [] (url_href (onExample ''/robots.txt''))
       = (Some \<lparr> html = ''User-agent: *\<newline>Crawl-delay: 5\<newline>Crawl-delay: 0'',
                  statusCode = 200, loadTime = 0 \<rparr>,
          [''https://example.com/robots.txt''])
   \<and> filter isCrawlDelayLine (split_nl ''User-agent: *\<newline>Crawl-delay: 5\<newline>Crawl-delay: 0'')
       = [''Crawl-delay: 5'', ''Crawl-delay: 0'']
   \<and> parseInt (trim (substring (trim ''Crawl-delay: 0'') 12)) = Some 0
   \<and> crawlRun 5 siteDelayZero configDefault [] = Returns stateDelayZero
   \<and> crawlDelay (fst (fetchRobotsTxt siteDelayZero [] (url_origin (onExample ''/'')))) = None
   \<and> delayMs (crawlDelay (fst (fetchRobotsTxt siteDelayZero [] (url_origin (onExample ''/''))))) = 1000
   \<and> events stateDelayZero
       = concat (map (attemptEvents 1000 (crawledUrls stateDelayZero)) (take 4 (snapshot stateDelayZero)))
   \<and> events stateDelayZero
       = [Crawling ''https://example.com/'', Sleep 1000,
          Crawling ''https://example.com/p1'', CrawlError ''https://example.com/p1'',
          Crawling ''https://example.com/p2'', Sleep 1000,
          Crawling ''https://example.com/p3'', Sleep 1000]
   \<and> Sleep 1000 \<in> set (events stateDelayZero)"
proof -
  let ?body = "''User-agent: *\<newline>Crawl-delay: 5\<newline>Crawl-delay: 0''"
  let ?f = "\<lparr> html = ?body, statusCode = 200, loadTime = 0 \<rparr>"
  have s: "newURL siteDelayZero (config_url configDefault) None = Some (onExample ''/'')"
    by code_simp
  have r: "respectRobotsTxt configDefault \<noteq> Some False"
    by (simp add: configDefault_def)
  have u: "newURL siteDelayZero ''/robots.txt'' (Some (url_origin (onExample ''/'')))
       = Some (onExample ''/robots.txt'')"
    by code_simp
  have f: "fetchPage siteDelayZero [] (url_href (onExample ''/robots.txt''))
       = (Some ?f, [''https://example.com/robots.txt''])"
    by code_simp
  have l: "filter isCrawlDelayLine (split_nl ?body) = [''Crawl-delay: 5'', ''Crawl-delay: 0'']"
    by code_simp
  have l1: "filter isCrawlDelayLine (split_nl (html ?f)) \<noteq> []"
    using l by simp
  have z: "parseInt (trim (substring (trim ''Crawl-delay: 0'') 12)) = Some 0"
    by code_simp
  have z1: "parseInt (trim (substring (trim (last (filter isCrawlDelayLine (split_nl (html ?f))))) 12))
             = Some 0"
    using l z by simp
  note t = zero_crawl_delay_gives_default [OF s r u f l1 z1 run_delay_zero]
  have ev: "events stateDelayZero
       = [Crawling ''https://example.com/'', Sleep 1000,
          Crawling ''https://example.com/p1'', CrawlError ''https://example.com/p1'',
          Crawling ''https://example.com/p2'', Sleep 1000,
          Crawling ''https://example.com/p3'', Sleep 1000]"
    by (simp add: stateDelayZero_def)
  have k: "events stateDelayZero
       = concat (map (attemptEvents 1000 (crawledUrls stateDelayZero)) (take 4 (snapshot stateDelayZero)))"
    by code_simp
  have sl: "Sleep 1000 \<in> set (events stateDelayZero)"
    unfolding ev by simp
  show ?thesis
    by (intro conjI)
       (rule s r u f l z run_delay_zero t [THEN conjunct1] t [THEN conjunct2, THEN conjunct1]
             k ev sl)+
qed

subsection \<open>Classification of links\<close>

lemma startsWith_slash_not_http: "startsWith h ''/'' \<Longrightarrow> \<not> startsWith h ''http''"
  by (cases h) (simp_all add: startsWith_def)

text \<open>
  C8, as the code has it. A page that is analysed has an address that parses, and for
  every link of its record: if the link target resolves against the address of the
  page, the link is internal exactly when the resolved host name is the host name of
  the page's own address (\<open>analyzePage\<close> knows no crawl origin); if it does not
  resolve, the link is internal exactly when the target does not start with \<open>http\<close>.
\<close>

theorem link_classification:
  assumes "analyzePage lib w pageUrl = (Some a, w1)" and "l \<in> set (links a)"
  shows "\<exists>u. newURL lib pageUrl None = Some u
           \<and> (case newURL lib (href l) (Some pageUrl) of
                Some linkUrl \<Rightarrow> isInternal l = (url_hostname linkUrl = url_hostname u)
              | None \<Rightarrow> isInternal l = (\<not> startsWith (href l) ''http''))"
proof -
  from assms(1) have "\<exists>u els. newURL lib pageUrl None = Some u
           \<and> links a = map (classifyLink lib pageUrl (url_hostname u)) els"
    by (auto simp: analyzePage_def split: prod.splits option.splits)
  then obtain u els where u: "newURL lib pageUrl None = Some u"
    and a: "links a = map (classifyLink lib pageUrl (url_hostname u)) els"
    by blast
  from assms(2) obtain el where l: "l = classifyLink lib pageUrl (url_hostname u) el"
    unfolding a by auto
  have "case newURL lib (href l) (Some pageUrl) of
          Some linkUrl \<Rightarrow> isInternal l = (url_hostname linkUrl = url_hostname u)
        | None \<Rightarrow> isInternal l = (\<not> startsWith (href l) ''http'')"
    unfolding l using startsWith_slash_not_http [of "attrOrEmpty el ''href''"]
    by (auto simp: classifyLink_def Let_def split: option.splits)
  with u show ?thesis by blast
qed

text \<open>
  The three examples of the claim and two targets that do not resolve, on a page of
  \<open>example.com\<close>.
\<close>

lemma analyze_five:
  "analyzePage siteLinks [] ''https://example.com/a'' = (Some pageFive, [''https://example.com/a''])"
  by code_simp

lemma url_a: "newURL siteLinks ''https://example.com/a'' None = Some (onExample ''/a'')"
  by code_simp

theorem link_classification_witness:
  "analyzePage siteLinks [] ''https://example.com/a'' = (Some pageFive, [''https://example.com/a''])
   \<and> links pageFive = [mkLink ''/b'' ''B'' True, mkLink ''https://other.com/b'' ''O'' False,
                mkLink ''contact'' ''C'' True, mkLink ''http://'' ''X'' False,
                mkLink ''//['' ''Y'' True]
   \<and> newURL siteLinks ''https://example.com/a'' None = Some (onExample ''/a'')
   \<and> newURL siteLinks ''/b'' (Some ''https://example.com/a'') = Some (onExample ''/b'')
   \<and> isInternal (mkLink ''/b'' ''B'' True)
       = (url_hostname (onExample ''/b'') = url_hostname (onExample ''/a''))
   \<and> newURL siteLinks ''https://other.com/b'' (Some ''https://example.com/a'') = Some (onOther ''/b'')
   \<and> isInternal (mkLink ''https://other.com/b'' ''O'' False)
       = (url_hostname (onOther ''/b'') = url_hostname (onExample ''/a''))
   \<and> newURL siteLinks ''http://'' (Some ''https://example.com/a'') = None
   \<and> isInternal (mkLink ''http://'' ''X'' False) = (\<not> startsWith ''http://'' ''http'')
   \<and> newURL siteLinks ''//['' (Some ''https://example.com/a'') = None
   \<and> isInternal (mkLink ''//['' ''Y'' True) = (\<not> startsWith ''//['' ''http'')"
proof -
  have ls: "links pageFive = [mkLink ''/b'' ''B'' True, mkLink ''https://other.com/b'' ''O'' False,
                mkLink ''contact'' ''C'' True, mkLink ''http://'' ''X'' False,
                mkLink ''//['' ''Y'' True]"
    by (simp add: pageFive_def)
  have k: "case newURL siteLinks (href l) (Some ''https://example.com/a'') of
          Some linkUrl \<Rightarrow> isInternal l = (url_hostname linkUrl = url_hostname (onExample ''/a''))
        | None \<Rightarrow> isInternal l = (\<not> startsWith (href l) ''http'')"
    if "l \<in> set (links pageFive)" for l
    using link_classification [OF analyze_five that] url_a by auto
  have n1: "newURL siteLinks ''/b'' (Some ''https://example.com/a'') = Some (onExample ''/b'')"
    by code_simp
  have n2: "newURL siteLinks ''https://other.com/b'' (Some ''https://example.com/a'') = Some (onOther ''/b'')"
    by code_simp
  have n4: "newURL siteLinks ''http://'' (Some ''https://example.com/a'') = None"
    by code_simp
  have n5: "newURL siteLinks ''//['' (Some ''https://example.com/a'') = None"
    by code_simp
  have h: "href (mkLink x t i) = x" for x t i by (simp add: mkLink_def)
  have k1: "isInternal (mkLink ''/b'' ''B'' True)
       = (url_hostname (onExample ''/b'') = url_hostname (onExample ''/a''))"
    using k [of "mkLink ''/b'' ''B'' True"] by (simp add: ls h n1)
  have k2: "isInternal (mkLink ''https://other.com/b'' ''O'' False)
       = (url_hostname (onOther ''/b'') = url_hostname (onExample ''/a''))"
    using k [of "mkLink ''https://other.com/b'' ''O'' False"] by (simp add: ls h n2)
  have k4: "isInternal (mkLink ''http://'' ''X'' False) = (\<not> startsWith ''http://'' ''http'')"
    using k [of "mkLink ''http://'' ''X'' False"] by (simp add: ls h n4)
  have k5: "isInternal (mkLink ''//['' ''Y'' True) = (\<not> startsWith ''//['' ''http'')"
    using k [of "mkLink ''//['' ''Y'' True"] by (simp add: ls h n5)
  show ?thesis
    by (intro conjI) (rule analyze_five ls url_a n1 n2 n4 n5 k1 k2 k4 k5)+
qed

text \<open>
  A crawl from \<open>example.com\<close> whose sitemap lists a page of \<open>other.com\<close>: the link
  \<open>/b\<close> of that page resolves to \<open>other.com\<close>, not the host of the crawl origin, and
  is internal.
\<close>

theorem internal_link_on_other_host:
  "crawlSite 5 siteOther configTwoPages []
     = Returns [pagePlain ''https://example.com/'', pageLinkB ''https://other.com/p'']
   \<and> links (pageLinkB ''https://other.com/p'')
       = [\<lparr> href = ''/b'', linkText = ''B'', isInternal = True, isNofollow = False \<rparr>]
   \<and> newURL siteOther ''/b'' (Some ''https://other.com/p'') = Some (onOther ''/b'')
   \<and> url_hostname (onOther ''/b'') = ''other.com''
   \<and> newURL siteOther (config_url configTwoPages) None = Some (onExample ''/'')
   \<and> url_hostname (onExample ''/'') = ''example.com''"
proof -
  have a: "crawlSite 5 siteOther configTwoPages []
     = Returns [pagePlain ''https://example.com/'', pageLinkB ''https://other.com/p'']"
    by code_simp
  have b: "links (pageLinkB ''https://other.com/p'')
       = [\<lparr> href = ''/b'', linkText = ''B'', isInternal = True, isNofollow = False \<rparr>]"
    by (simp add: pageLinkB_def)
  have c: "newURL siteOther ''/b'' (Some ''https://other.com/p'') = Some (onOther ''/b'')"
    by code_simp
  have d: "url_hostname (onOther ''/b'') = ''other.com''"
    by (simp add: onOther_def mkURL_def)
  have e: "newURL siteOther (config_url configTwoPages) None = Some (onExample ''/'')"
    by code_simp
  have f: "url_hostname (onExample ''/'') = ''example.com''"
    by (simp add: onExample_def mkURL_def)
  show ?thesis
    by (intro conjI) (rule a b c d e f)+
qed

subsection \<open>Disallow rules\<close>

lemma seedFrontier_disallowed:
  "seedFrontier fuel lib config baseUrl (robotsTxt\<lparr>disallowed := ds\<rparr>) w
     = seedFrontier fuel lib config baseUrl robotsTxt w"
  by (simp add: seedFrontier_def)

text \<open>
  C10. The list of disallow patterns read from robots.txt is not consulted: from the
  point where robots.txt has been read, the crawl with any list of patterns is the crawl
  with the empty list, in every component of its last state, the visited addresses
  among them.
\<close>

theorem disallowed_never_consulted:
  "crawlFrom fuel lib config baseUrl (robotsTxt\<lparr>disallowed := ds\<rparr>) w
     = crawlFrom fuel lib config baseUrl (robotsTxt\<lparr>disallowed := []\<rparr>) w"
  by (simp add: crawlFrom_def seedFrontier_disallowed split: option.splits prod.splits)

end
